theory Spec2Isabelle
  imports Complex_Main "HOL-Library.Sublist" "HOL-Library.Product_Lexorder" "HOL-Library.Log_Nat"
begin

section \<open>The Zomato cleaning pipeline: data model\<close>

text \<open>
  The pipeline works on pandas data frames. A frame is modelled as its row count (the
  length of the index) and its ordered list of columns; a column has a name, a dtype and
  one cell per row. A cell is a Python string or a float. The missing marker is the float
  \<open>nan\<close>, which is what \<open>pd.read_csv\<close> (\<open>data_loader.py\<close>) and the tests' \<open>np.nan\<close> put
  into a frame. Floats are the rationals with the three special values of IEEE arithmetic:
  arithmetic on finite values is exact (no rounding, no overflow), and there is one zero.
  Strings are lists of ASCII characters. The pandas behaviour modelled is that of the 1.x
  and 2.x releases.
\<close>

datatype pyfloat = Fin rat | PInf | NInf | NaN

datatype cell = Str string | Num pyfloat

datatype dtype = Numeric | Object | Category

record column =
  cname :: string
  dtype :: dtype
  cells :: "cell list"

record table =
  nrows :: nat
  cols :: "column list"

datatype error = KeyError string | TypeError

text \<open>Every column of a frame has one cell per row, and column labels are unique.\<close>

definition wf_table :: "table \<Rightarrow> bool" where
  "wf_table df =
     (list_all (\<lambda>c. length (cells c) = nrows df) (cols df) \<and> distinct (map cname (cols df)))"

subsection \<open>Float arithmetic and comparison\<close>

fun fadd :: "pyfloat \<Rightarrow> pyfloat \<Rightarrow> pyfloat" where
  "fadd NaN y = NaN"
| "fadd x NaN = NaN"
| "fadd (Fin a) (Fin b) = Fin (a + b)"
| "fadd PInf NInf = NaN"
| "fadd NInf PInf = NaN"
| "fadd PInf y = PInf"
| "fadd NInf y = NInf"
| "fadd (Fin a) y = y"

fun fneg :: "pyfloat \<Rightarrow> pyfloat" where
  "fneg (Fin a) = Fin (- a)"
| "fneg PInf = NInf"
| "fneg NInf = PInf"
| "fneg NaN = NaN"

definition fsub :: "pyfloat \<Rightarrow> pyfloat \<Rightarrow> pyfloat" where
  "fsub x y = fadd x (fneg y)"

text \<open>Multiplication by a finite factor, as the IQR multiplier and the interpolation need it.\<close>

fun fscale :: "rat \<Rightarrow> pyfloat \<Rightarrow> pyfloat" where
  "fscale k (Fin a) = Fin (k * a)"
| "fscale k NaN = NaN"
| "fscale k PInf = (if k = 0 then NaN else if 0 < k then PInf else NInf)"
| "fscale k NInf = (if k = 0 then NaN else if 0 < k then NInf else PInf)"

fun flt :: "pyfloat \<Rightarrow> pyfloat \<Rightarrow> bool" where
  "flt NaN y = False"
| "flt x NaN = False"
| "flt (Fin a) (Fin b) = (a < b)"
| "flt x NInf = False"
| "flt PInf y = False"
| "flt NInf y = True"
| "flt (Fin a) PInf = True"

definition fle :: "pyfloat \<Rightarrow> pyfloat \<Rightarrow> bool" where
  "fle x y = (x \<noteq> NaN \<and> y \<noteq> NaN \<and> \<not> flt y x)"

subsection \<open>Binary floating point\<close>

text \<open>Rounding to the nearest integer, a tie to the even one.\<close>

definition round_half_even :: "rat \<Rightarrow> int" where
  "round_half_even y =
     (let f = \<lfloor>y\<rfloor>; d = y - of_int f
      in if d < 1 / 2 then f else if 1 / 2 < d then f + 1
         else if even f then f else f + 1)"

text \<open>Binary floating point. A Python float is an IEEE 754 double: a finite double is a
  rational \<open>n 2\<^sup>q\<close> with \<open>|n| < 2\<^sup>5\<^sup>3\<close> and \<open>- 1074 \<le> q \<le> 971\<close>. \<open>fl x\<close> is the double
  nearest to \<open>x\<close>, a tie going to the even significand, as the hardware rounds every
  result; a magnitude of \<open>2\<^sup>1\<^sup>0\<^sup>2\<^sup>4\<close> or more is an overflow. \<open>binade x\<close> is the exponent \<open>e\<close>
  with \<open>2\<^sup>e \<le> x < 2\<^sup>e\<^sup>+\<^sup>1\<close>.\<close>

definition binade :: "rat \<Rightarrow> int" where
  "binade x =
     (let k = bitlen (fst (quotient_of x)) - bitlen (snd (quotient_of x))
      in if 2 powi k \<le> x then k else k - 1)"

definition fl_pos :: "rat \<Rightarrow> rat" where
  "fl_pos x =
     (let q = 2 powi (max (binade x) (- 1022) - 52)
      in of_int (round_half_even (x / q)) * q)"

definition fl :: "rat \<Rightarrow> rat" where
  "fl x = (if x = 0 then 0 else if 0 < x then fl_pos x else - fl_pos (- x))"

definition to_double :: "rat \<Rightarrow> pyfloat" where
  "to_double x =
     (let y = fl x
      in if 2 ^ 1024 \<le> y then PInf else if y \<le> - (2 ^ 1024) then NInf else Fin y)"

subsection \<open>Python strings: \<open>float(s)\<close>, \<open>re.search\<close>, \<open>strip\<close>, \<open>title\<close>\<close>

definition is_digit :: "char \<Rightarrow> bool" where
  "is_digit c = (c \<in> set ''0123456789'')"

definition digit_val :: "char \<Rightarrow> nat" where
  "digit_val c = (of_char c :: nat) - 48"

definition digits_val :: "string \<Rightarrow> nat" where
  "digits_val ds = foldl (\<lambda>n c. 10 * n + digit_val c) 0 ds"

text \<open>The whitespace \<open>float\<close> skips around an ASCII literal (C's \<open>isspace\<close>), and the
  larger set \<open>str.strip\<close> removes (\<open>str.isspace\<close>, which adds the separators 0x1C to 0x1F).\<close>

definition is_float_space :: "char \<Rightarrow> bool" where
  "is_float_space c = (c \<in> set [CHR '' '', CHR 0x09, CHR 0x0A, CHR 0x0B, CHR 0x0C, CHR 0x0D])"

definition is_space :: "char \<Rightarrow> bool" where
  "is_space c = (is_float_space c \<or> c \<in> set [CHR 0x1C, CHR 0x1D, CHR 0x1E, CHR 0x1F])"

definition is_upper :: "char \<Rightarrow> bool" where
  "is_upper c = (65 \<le> (of_char c :: nat) \<and> (of_char c :: nat) \<le> 90)"

definition is_lower :: "char \<Rightarrow> bool" where
  "is_lower c = (97 \<le> (of_char c :: nat) \<and> (of_char c :: nat) \<le> 122)"

definition is_cased :: "char \<Rightarrow> bool" where
  "is_cased c = (is_upper c \<or> is_lower c)"

definition to_lower :: "char \<Rightarrow> char" where
  "to_lower c = (if is_upper c then char_of ((of_char c :: nat) + 32) else c)"

definition to_upper :: "char \<Rightarrow> char" where
  "to_upper c = (if is_lower c then char_of ((of_char c :: nat) - 32) else c)"

definition lower_str :: "string \<Rightarrow> string" where
  "lower_str s = map to_lower s"

text \<open>\<open>str.strip()\<close>: leading and trailing whitespace removed.\<close>

definition py_strip_with :: "(char \<Rightarrow> bool) \<Rightarrow> string \<Rightarrow> string" where
  "py_strip_with sp s = rev (dropWhile sp (rev (dropWhile sp s)))"

definition py_strip :: "string \<Rightarrow> string" where
  "py_strip s = py_strip_with is_space s"

text \<open>\<open>str.title()\<close>: a cased character is upper-cased when the character before it is not
  cased (or there is none) and lower-cased otherwise; the flag is the loop's
  \<open>previous_is_cased\<close>.\<close>

fun title_from :: "bool \<Rightarrow> string \<Rightarrow> string" where
  "title_from prev [] = []"
| "title_from prev (c # s) =
     (if prev then to_lower c else to_upper c) # title_from (is_cased c) s"

definition py_title :: "string \<Rightarrow> string" where
  "py_title s = title_from False s"

text \<open>\<open>float(s)\<close> on a string. Underscores may stand between two digits only and are
  removed first; then surrounding whitespace is skipped; what is left is an optional sign
  followed by \<open>inf\<close>, \<open>infinity\<close> or \<open>nan\<close> in any case, or by a decimal literal with an
  optional exponent. \<open>None\<close> is the \<open>ValueError\<close>.\<close>

fun strip_underscores :: "char \<Rightarrow> string \<Rightarrow> string option" where
  "strip_underscores prev [] = (if prev = CHR ''_'' then None else Some [])"
| "strip_underscores prev (c # s) =
     (if c = CHR ''_'' then (if is_digit prev then strip_underscores c s else None)
      else if prev = CHR ''_'' \<and> \<not> is_digit c then None
      else map_option ((#) c) (strip_underscores c s))"

definition split_sign :: "string \<Rightarrow> bool \<times> string" where
  "split_sign s =
     (case s of [] \<Rightarrow> (False, [])
      | c # r \<Rightarrow> if c = CHR ''-'' then (True, r) else if c = CHR ''+'' then (False, r) else (False, s))"

definition parse_exponent :: "string \<Rightarrow> int option" where
  "parse_exponent s =
     (case s of [] \<Rightarrow> Some 0
      | c # r \<Rightarrow>
          if c = CHR ''e'' \<or> c = CHR ''E'' then
            (let (neg, ds) = split_sign r
             in if ds \<noteq> [] \<and> list_all is_digit ds
                then Some (if neg then - int (digits_val ds) else int (digits_val ds))
                else None)
          else None)"

definition pow10 :: "int \<Rightarrow> rat" where
  "pow10 e = (if 0 \<le> e then 10 ^ nat e else 1 / 10 ^ nat (- e))"

definition parse_decimal :: "string \<Rightarrow> rat option" where
  "parse_decimal s =
     (let ip = takeWhile is_digit s; r = dropWhile is_digit s;
          has_dot = (r \<noteq> [] \<and> hd r = CHR ''.'');
          r1 = (if has_dot then tl r else r);
          fp = (if has_dot then takeWhile is_digit r1 else []);
          r2 = (if has_dot then dropWhile is_digit r1 else r1)
      in if ip = [] \<and> fp = [] then None
         else (case parse_exponent r2 of
                 None \<Rightarrow> None
               | Some e \<Rightarrow>
                   Some ((of_nat (digits_val ip) + of_nat (digits_val fp) / 10 ^ length fp)
                         * pow10 e)))"

definition py_float :: "string \<Rightarrow> pyfloat option" where
  "py_float s =
     (case strip_underscores (CHR 0x00) s of
        None \<Rightarrow> None
      | Some s1 \<Rightarrow>
          (let (neg, body) = split_sign (py_strip_with is_float_space s1);
               l = lower_str body
           in if l = ''inf'' \<or> l = ''infinity'' then Some (if neg then NInf else PInf)
              else if l = ''nan'' then Some NaN
              else (case parse_decimal body of
                      None \<Rightarrow> None
                    | Some v \<Rightarrow> Some (Fin (if neg then - v else v)))))"

text \<open>\<open>re.search(r'(\d+\.?\d*)', s)\<close>: the leftmost digit run, a dot when one follows it, and
  the digits after that dot. The result is the group matched, \<open>None\<close> when there is no digit.\<close>

definition re_search_number :: "string \<Rightarrow> string option" where
  "re_search_number s =
     (let s1 = dropWhile (\<lambda>c. \<not> is_digit c) s
      in if s1 = [] then None
         else (let ip = takeWhile is_digit s1; r = dropWhile is_digit s1
               in if r \<noteq> [] \<and> hd r = CHR ''.''
                  then Some (ip @ ''.'' @ takeWhile is_digit (tl r))
                  else Some ip))"

section \<open>The pandas operations the pipeline calls\<close>

text \<open>\<open>pd.isna\<close>, \<open>df.isnull().sum()\<close> of one column and \<open>df.isnull().sum().sum()\<close>.\<close>

fun isna :: "cell \<Rightarrow> bool" where
  "isna (Num NaN) = True"
| "isna x = False"

fun is_str :: "cell \<Rightarrow> bool" where
  "is_str (Str s) = True"
| "is_str (Num x) = False"

definition isnull_count :: "column \<Rightarrow> nat" where
  "isnull_count c = length (filter isna (cells c))"

definition isnull_sum :: "table \<Rightarrow> nat" where
  "isnull_sum df = sum_list (map isnull_count (cols df))"

text \<open>\<open>df[name]\<close> (\<open>None\<close> is the \<open>KeyError\<close>), \<open>name in df.columns\<close> is \<open>get_col df name \<noteq> None\<close>,
  \<open>df[name] = series\<close> and \<open>df.drop(columns=names)\<close>.\<close>

definition get_col :: "table \<Rightarrow> string \<Rightarrow> column option" where
  "get_col df name = find (\<lambda>c. cname c = name) (cols df)"

definition set_col :: "table \<Rightarrow> string \<Rightarrow> column \<Rightarrow> table" where
  "set_col df name c =
     (if get_col df name \<noteq> None
      then df\<lparr>cols := map (\<lambda>d. if cname d = name then c\<lparr>cname := name\<rparr> else d) (cols df)\<rparr>
      else df\<lparr>cols := cols df @ [c\<lparr>cname := name\<rparr>]\<rparr>)"

definition drop_columns :: "table \<Rightarrow> string list \<Rightarrow> table" where
  "drop_columns df names = df\<lparr>cols := filter (\<lambda>c. cname c \<notin> set names) (cols df)\<rparr>"

text \<open>The non-missing values of a column as floats, for a reduction. A column that holds a
  string, or a categorical one, raises \<open>TypeError\<close>.\<close>

fun float_values :: "cell list \<Rightarrow> pyfloat list" where
  "float_values [] = []"
| "float_values (Num NaN # xs) = float_values xs"
| "float_values (Num x # xs) = x # float_values xs"
| "float_values (Str s # xs) = float_values xs"

definition numeric_values :: "column \<Rightarrow> error + pyfloat list" where
  "numeric_values c =
     (if dtype c = Category \<or> list_ex is_str (cells c) then Inl TypeError
      else Inr (float_values (cells c)))"

text \<open>Sorting floats without \<open>nan\<close>: minus infinity, the finite values, plus infinity.\<close>

fun fkey :: "pyfloat \<Rightarrow> int \<times> rat" where
  "fkey (Fin a) = (0, a)"
| "fkey PInf = (1, 0)"
| "fkey NInf = (- 1, 0)"
| "fkey NaN = (2, 0)"

definition fsort :: "pyfloat list \<Rightarrow> pyfloat list" where
  "fsort xs = sort_key fkey xs"

text \<open>\<open>Series.median()\<close>: missing values skipped; the middle value, or the mean of the two
  middle values; \<open>nan\<close> when nothing is left.\<close>

definition median_of :: "pyfloat list \<Rightarrow> pyfloat" where
  "median_of xs =
     (let s = fsort xs; n = length s
      in if n = 0 then NaN
         else if odd n then s ! (n div 2)
         else fscale (1 / 2) (fadd (s ! (n div 2 - 1)) (s ! (n div 2))))"

definition median :: "column \<Rightarrow> error + pyfloat" where
  "median c = (case numeric_values c of Inl e \<Rightarrow> Inl e | Inr xs \<Rightarrow> Inr (median_of xs))"

text \<open>\<open>Series.quantile(q)\<close> with the default linear interpolation (numpy's \<open>percentile\<close> on the
  non-missing values): the virtual index \<open>(n - 1) q\<close>, its two neighbours, and numpy's
  two-sided interpolation formula.\<close>

definition lerp :: "pyfloat \<Rightarrow> pyfloat \<Rightarrow> rat \<Rightarrow> pyfloat" where
  "lerp a b t =
     (if 1 / 2 \<le> t then fsub b (fscale (1 - t) (fsub b a)) else fadd a (fscale t (fsub b a)))"

definition quantile_of :: "pyfloat list \<Rightarrow> rat \<Rightarrow> pyfloat" where
  "quantile_of xs q =
     (let s = fsort xs; n = length s
      in if n = 0 then NaN
         else (let h = of_nat (n - 1) * q; lo = nat \<lfloor>h\<rfloor>; hi = min (lo + 1) (n - 1)
               in lerp (s ! lo) (s ! hi) (h - of_nat lo)))"

definition quantile :: "column \<Rightarrow> rat \<Rightarrow> error + pyfloat" where
  "quantile c q = (case numeric_values c of Inl e \<Rightarrow> Inl e | Inr xs \<Rightarrow> Inr (quantile_of xs q))"

text \<open>\<open>Series.fillna(value)\<close>. A numeric column into which a string is filled becomes an
  object column; a column without a missing value is returned as it is. A categorical
  column takes no value outside its categories.\<close>

definition filled :: "column \<Rightarrow> cell \<Rightarrow> column" where
  "filled c v =
     c\<lparr>dtype := (if dtype c = Numeric \<and> is_str v \<and> list_ex isna (cells c)
                  then Object else dtype c),
       cells := map (\<lambda>x. if isna x then v else x) (cells c)\<rparr>"

definition fillna :: "column \<Rightarrow> cell \<Rightarrow> error + column" where
  "fillna c v = (if dtype c = Category \<and> \<not> isna v then Inl TypeError else Inr (filled c v))"

text \<open>\<open>Series.clip(lower, upper)\<close>, which \<open>np.clip\<close> on a series calls: a \<open>nan\<close> bound does
  not clip, a missing value stays missing.\<close>

fun clip_cell :: "pyfloat \<Rightarrow> pyfloat \<Rightarrow> cell \<Rightarrow> cell" where
  "clip_cell lower upper (Str s) = Str s"
| "clip_cell lower upper (Num v) =
     (if flt upper v then Num upper else if flt v lower then Num lower else Num v)"

definition clip :: "column \<Rightarrow> pyfloat \<Rightarrow> pyfloat \<Rightarrow> column" where
  "clip c lower upper = c\<lparr>cells := map (clip_cell lower upper) (cells c)\<rparr>"

text \<open>\<open>Series.apply(f)\<close> for a function into floats: a float column, except that an empty
  series keeps its dtype.\<close>

definition apply_float :: "(cell \<Rightarrow> pyfloat) \<Rightarrow> column \<Rightarrow> column" where
  "apply_float f c =
     c\<lparr>dtype := (if cells c = [] then dtype c else Numeric), cells := map (\<lambda>x. Num (f x)) (cells c)\<rparr>"

text \<open>\<open>df.drop_duplicates()\<close>: a frame without rows or without columns is returned as it is;
  otherwise \<open>duplicated()\<close> marks each row that equals an earlier one (missing values equal
  each other) and the frame is filtered by the negated mask.\<close>

definition row_at :: "table \<Rightarrow> nat \<Rightarrow> cell list" where
  "row_at df i = map (\<lambda>c. cells c ! i) (cols df)"

definition rows_of :: "table \<Rightarrow> cell list list" where
  "rows_of df = map (row_at df) [0..<nrows df]"

fun duplicated_from :: "'a list \<Rightarrow> 'a list \<Rightarrow> bool list" where
  "duplicated_from seen [] = []"
| "duplicated_from seen (r # rs) = (r \<in> set seen) # duplicated_from (r # seen) rs"

fun keep_rows :: "bool list \<Rightarrow> 'a list \<Rightarrow> 'a list" where
  "keep_rows (d # ds) (x # xs) = (if d then keep_rows ds xs else x # keep_rows ds xs)"
| "keep_rows ds xs = []"

definition drop_duplicates :: "table \<Rightarrow> table" where
  "drop_duplicates df =
     (if nrows df = 0 \<or> cols df = [] then df
      else (let mask = duplicated_from [] (rows_of df)
            in \<lparr>nrows = length (filter Not mask),
                cols = map (\<lambda>c. c\<lparr>cells := keep_rows mask (cells c)\<rparr>) (cols df)\<rparr>))"

text \<open>\<open>pd.cut(x, bins, labels)\<close> with its defaults (\<open>right=True\<close>, \<open>include_lowest=False\<close>): a
  value gets the label of the interval, open on the left and closed on the right, that
  holds it, and the missing marker when no interval does. A column that holds a string
  raises \<open>TypeError\<close>.\<close>

fun cut_value :: "pyfloat list \<Rightarrow> string list \<Rightarrow> pyfloat \<Rightarrow> cell" where
  "cut_value (lo # hi # bins) (l # labels) x =
     (if flt lo x \<and> fle x hi then Str l else cut_value (hi # bins) labels x)"
| "cut_value bins labels x = Num NaN"

definition category_cell :: "pyfloat list \<Rightarrow> string list \<Rightarrow> cell \<Rightarrow> cell" where
  "category_cell bins labels x = (case x of Num v \<Rightarrow> cut_value bins labels v | Str s \<Rightarrow> Num NaN)"

definition cut :: "column \<Rightarrow> pyfloat list \<Rightarrow> string list \<Rightarrow> error + column" where
  "cut c bins labels =
     (if dtype c = Category \<or> list_ex is_str (cells c) then Inl TypeError
      else Inr (c\<lparr>dtype := Category, cells := map (category_cell bins labels) (cells c)\<rparr>))"

text \<open>\<open>Series.astype(str)\<close>: \<open>str\<close> of each cell. The text of a finite float is a parameter
  (\<open>repr\<close>); missing values become the string \<open>nan\<close>.\<close>

fun astype_str :: "(rat \<Rightarrow> string) \<Rightarrow> cell \<Rightarrow> string" where
  "astype_str repr (Str s) = s"
| "astype_str repr (Num (Fin r)) = repr r"
| "astype_str repr (Num PInf) = ''inf''"
| "astype_str repr (Num NInf) = ''-inf''"
| "astype_str repr (Num NaN) = ''nan''"

section \<open>Configuration (\<open>config/settings.py\<close>)\<close>

definition MISSING_THRESHOLD :: rat where
  "MISSING_THRESHOLD = 1 / 2"

definition OUTLIER_IQR_MULTIPLIER :: rat where
  "OUTLIER_IQR_MULTIPLIER = 3 / 2"

definition TEXT_COLUMNS :: "string list" where
  "TEXT_COLUMNS = [''name'', ''location'', ''rest_type'', ''cuisines'', ''dish_liked'']"

definition COST_BINS :: "pyfloat list" where
  "COST_BINS = [Fin 0, Fin 500, Fin 1000, Fin 2000, PInf]"

definition COST_LABELS :: "string list" where
  "COST_LABELS = [''Budget'', ''Moderate'', ''Expensive'', ''Premium'']"

definition RATING_BINS :: "pyfloat list" where
  "RATING_BINS = [Fin 0, Fin 2, Fin 3, Fin 4, Fin 5]"

definition RATING_LABELS :: "string list" where
  "RATING_LABELS = [''Poor'', ''Average'', ''Good'', ''Excellent'']"

section \<open>\<open>DataCleaner\<close> (\<open>src/data_cleaner.py\<close>)\<close>

text \<open>\<open>handle_missing_values\<close>. The columns whose missing count exceeds half the row count
  are dropped. The dictionary of imputation values is then built, which reads the cost
  column and takes its median, and only after that the loop fills the columns it finds.\<close>

definition COST_COLUMN :: string where
  "COST_COLUMN = ''approx_cost(for two people)''"

fun impute :: "(string \<times> cell) list \<Rightarrow> table \<Rightarrow> error + table" where
  "impute [] df = Inr df"
| "impute ((column, strategy) # rest) df =
     (case get_col df column of
        None \<Rightarrow> impute rest df
      | Some c \<Rightarrow>
          (case fillna c strategy of
             Inl e \<Rightarrow> Inl e
           | Inr c' \<Rightarrow> impute rest (set_col df column c')))"

definition columns_to_drop :: "table \<Rightarrow> string list" where
  "columns_to_drop df =
     map cname (filter (\<lambda>c. of_nat (nrows df) * MISSING_THRESHOLD < of_nat (isnull_count c))
                       (cols df))"

definition after_drop :: "table \<Rightarrow> table" where
  "after_drop df =
     (if columns_to_drop df \<noteq> [] then drop_columns df (columns_to_drop df) else df)"

definition imputation_strategy :: "pyfloat \<Rightarrow> (string \<times> cell) list" where
  "imputation_strategy cost_median =
     [(''rate'', Str ''0 out of 5''),
      (COST_COLUMN, Num cost_median),
      (''cuisines'', Str ''Unknown''),
      (''dish_liked'', Str ''Not Specified'')]"

definition handle_missing_values :: "table \<Rightarrow> error + table" where
  "handle_missing_values df =
     (let df_cleaned = after_drop df
      in case get_col df_cleaned COST_COLUMN of
           None \<Rightarrow> Inl (KeyError COST_COLUMN)
         | Some cost \<Rightarrow>
             (case median cost of
                Inl e \<Rightarrow> Inl e
              | Inr m \<Rightarrow> impute (imputation_strategy m) df_cleaned))"

text \<open>\<open>remove_duplicates\<close>.\<close>

definition remove_duplicates :: "table \<Rightarrow> table" where
  "remove_duplicates df = drop_duplicates df"

text \<open>\<open>standardize_text_columns\<close>: \<open>astype(str).str.strip().str.title()\<close> on each configured
  column that is present.\<close>

definition standardize_column :: "(rat \<Rightarrow> string) \<Rightarrow> column \<Rightarrow> column" where
  "standardize_column repr c =
     c\<lparr>dtype := Object,
       cells := map (\<lambda>x. Str (py_title (py_strip (astype_str repr x)))) (cells c)\<rparr>"

fun standardize_loop :: "(rat \<Rightarrow> string) \<Rightarrow> string list \<Rightarrow> table \<Rightarrow> table" where
  "standardize_loop repr [] df = df"
| "standardize_loop repr (column # rest) df =
     (case get_col df column of
        None \<Rightarrow> standardize_loop repr rest df
      | Some c \<Rightarrow> standardize_loop repr rest (set_col df column (standardize_column repr c)))"

definition standardize_text_columns :: "(rat \<Rightarrow> string) \<Rightarrow> table \<Rightarrow> table" where
  "standardize_text_columns repr df = standardize_loop repr TEXT_COLUMNS df"

text \<open>\<open>_extract_rating\<close> and \<open>_clean_cost\<close>. A float is returned as it is (a missing one by the
  first test, any other by \<open>float(x)\<close>); the \<open>ValueError\<close> of \<open>float\<close> is caught and gives
  \<open>nan\<close>.\<close>

fun extract_rating :: "cell \<Rightarrow> pyfloat" where
  "extract_rating (Num x) = x"
| "extract_rating (Str s) =
     (case re_search_number s of
        Some g \<Rightarrow> (case py_float g of Some v \<Rightarrow> v | None \<Rightarrow> NaN)
      | None \<Rightarrow> (case py_float s of Some v \<Rightarrow> v | None \<Rightarrow> NaN))"

fun clean_cost :: "cell \<Rightarrow> pyfloat" where
  "clean_cost (Num x) = x"
| "clean_cost (Str s) =
     (case py_float (filter (\<lambda>c. c \<noteq> CHR '','') s) of Some v \<Rightarrow> v | None \<Rightarrow> NaN)"

text \<open>\<open>correct_data_types\<close>: the rating step, which fills the values it could not extract
  with the median of those it could, and the cost step, which fills nothing.\<close>

definition add_rate_clean :: "table \<Rightarrow> error + table" where
  "add_rate_clean df =
     (case get_col df ''rate'' of
        None \<Rightarrow> Inr df
      | Some r \<Rightarrow>
          (case median (apply_float extract_rating r) of
             Inl e \<Rightarrow> Inl e
           | Inr m \<Rightarrow>
               (case fillna (apply_float extract_rating r) (Num m) of
                  Inl e \<Rightarrow> Inl e
                | Inr c \<Rightarrow> Inr (set_col df ''rate_clean'' c))))"

definition add_cost_for_two :: "table \<Rightarrow> table" where
  "add_cost_for_two df =
     (case get_col df COST_COLUMN of
        None \<Rightarrow> df
      | Some c \<Rightarrow> set_col df ''cost_for_two'' (apply_float clean_cost c))"

definition correct_data_types :: "table \<Rightarrow> error + table" where
  "correct_data_types df =
     (case add_rate_clean df of
        Inl e \<Rightarrow> Inl e
      | Inr df1 \<Rightarrow> Inr (add_cost_for_two df1))"

text \<open>\<open>handle_outliers\<close>. The result carries the \<open>outlier_report\<close> that the method logs.\<close>

definition is_outlier :: "pyfloat \<Rightarrow> pyfloat \<Rightarrow> cell \<Rightarrow> bool" where
  "is_outlier lower upper x = (case x of Num v \<Rightarrow> flt v lower \<or> flt upper v | Str s \<Rightarrow> False)"

definition lower_bound :: "pyfloat \<Rightarrow> pyfloat \<Rightarrow> pyfloat" where
  "lower_bound Q1 Q3 = fsub Q1 (fscale OUTLIER_IQR_MULTIPLIER (fsub Q3 Q1))"

definition upper_bound :: "pyfloat \<Rightarrow> pyfloat \<Rightarrow> pyfloat" where
  "upper_bound Q1 Q3 = fadd Q3 (fscale OUTLIER_IQR_MULTIPLIER (fsub Q3 Q1))"

fun outliers_loop ::
  "string list \<Rightarrow> table \<Rightarrow> (string \<times> nat) list \<Rightarrow> error + table \<times> (string \<times> nat) list" where
  "outliers_loop [] df report = Inr (df, report)"
| "outliers_loop (col # rest) df report =
     (case get_col df col of
        None \<Rightarrow> outliers_loop rest df report
      | Some c \<Rightarrow>
          (case quantile c (1 / 4) of
             Inl e \<Rightarrow> Inl e
           | Inr Q1 \<Rightarrow>
               (case quantile c (3 / 4) of
                  Inl e \<Rightarrow> Inl e
                | Inr Q3 \<Rightarrow>
                    (let lower = lower_bound Q1 Q3; upper = upper_bound Q1 Q3;
                         outliers_count = length (filter (is_outlier lower upper) (cells c))
                     in outliers_loop rest (set_col df col (clip c lower upper))
                          (report @ [(col, outliers_count)])))))"

definition handle_outliers :: "table \<Rightarrow> error + table \<times> (string \<times> nat) list" where
  "handle_outliers df = outliers_loop [''rate_clean'', ''cost_for_two''] df []"

section \<open>\<open>FeatureEngineer\<close> (\<open>src/feature_engineer.py\<close>)\<close>

text \<open>\<open>_count_cuisines\<close>: \<open>len(str(x).split(','))\<close> is one more than the number of commas.\<close>

definition count_cuisines :: "(rat \<Rightarrow> string) \<Rightarrow> cell \<Rightarrow> pyfloat" where
  "count_cuisines repr x =
     (if isna x \<or> x = Str ''Unknown'' \<or> x = Str ''Not Specified'' then Fin 0
      else Fin (of_nat (length (filter (\<lambda>c. c = CHR '','') (astype_str repr x)) + 1)))"

text \<open>The three steps of \<open>create_features\<close>, each guarded by the presence of its source
  column; the two binning steps differ in the columns and the bins only.\<close>

definition add_num_cuisines :: "(rat \<Rightarrow> string) \<Rightarrow> table \<Rightarrow> table" where
  "add_num_cuisines repr df =
     (case get_col df ''cuisines'' of
        None \<Rightarrow> df
      | Some c \<Rightarrow> set_col df ''num_cuisines'' (apply_float (count_cuisines repr) c))"

definition add_category ::
  "string \<Rightarrow> string \<Rightarrow> pyfloat list \<Rightarrow> string list \<Rightarrow> table \<Rightarrow> error + table" where
  "add_category source target bins labels df =
     (case get_col df source of
        None \<Rightarrow> Inr df
      | Some c \<Rightarrow>
          (case cut c bins labels of
             Inl e \<Rightarrow> Inl e
           | Inr k \<Rightarrow> Inr (set_col df target k)))"

definition create_features :: "(rat \<Rightarrow> string) \<Rightarrow> table \<Rightarrow> error + table" where
  "create_features repr df =
     (case add_category ''cost_for_two'' ''cost_category'' COST_BINS COST_LABELS
             (add_num_cuisines repr df) of
        Inl e \<Rightarrow> Inl e
      | Inr df2 \<Rightarrow> add_category ''rate_clean'' ''rating_category'' RATING_BINS RATING_LABELS df2)"

section \<open>\<open>QualityChecker\<close> (\<open>src/quality_checker.py\<close>)\<close>

text \<open>\<open>round(x, ndigits)\<close> for a numpy float, which is numpy's \<open>around\<close>: the product with
  \<open>10 ** ndigits\<close>, rounded to an integer (a tie to the even one), divided by \<open>10 ** ndigits\<close>;
  the product and the quotient are rounded as every float result is.\<close>

definition np_round :: "rat \<Rightarrow> nat \<Rightarrow> rat" where
  "np_round x ndigits = fl (of_int (round_half_even (fl (x * 10 ^ ndigits))) / 10 ^ ndigits)"

text \<open>\<open>_calculate_quality_metrics\<close>. The missing count is a numpy integer, so the quotient, the
  difference and the product are numpy floats, each rounded, and \<open>round\<close> is numpy's. The
  entry \<open>memory_usage_mb\<close> (a measure of the process's memory) is left out.\<close>

record quality_metrics =
  total_rows :: nat
  total_columns :: nat
  completeness_score :: rat
  duplicate_rows :: nat
  numeric_columns :: nat
  categorical_columns :: nat
  total_missing_values :: nat
  missing_value_percentage :: rat

definition calculate_quality_metrics :: "table \<Rightarrow> quality_metrics" where
  "calculate_quality_metrics df =
     (let total_cells = nrows df * length (cols df);
          missing_cells = isnull_sum df
      in \<lparr>total_rows = nrows df,
          total_columns = length (cols df),
          completeness_score =
            (if 0 < total_cells
             then np_round (fl (1 - fl (fl (of_nat missing_cells) / fl (of_nat total_cells)))) 4
             else 0),
          duplicate_rows = 0,
          numeric_columns = length (filter (\<lambda>c. dtype c = Numeric) (cols df)),
          categorical_columns = length (filter (\<lambda>c. dtype c = Object) (cols df)),
          total_missing_values = missing_cells,
          missing_value_percentage =
            (if 0 < total_cells
             then np_round (fl (fl (fl (of_nat missing_cells) / fl (of_nat total_cells)) * 100)) 2
             else 0)\<rparr>)"

text \<open>\<open>validate_data_quality\<close>. The rules are a dictionary: a key it lacks raises \<open>KeyError\<close>
  where the method reads it; no dictionary at all means the defaults. The messages of
  the report are kept as values, with the numbers the method formats into them. The
  division of the missing count by the cell count is numpy's, which gives \<open>nan\<close> for 0/0.\<close>

record rules =
  max_missing_percentage :: "rat option"
  min_rows :: "int option"
  required_columns :: "string list option"

definition default_rules :: rules where
  "default_rules =
     \<lparr>max_missing_percentage = Some 5, min_rows = Some 100,
      required_columns = Some [''name'', ''rate_clean'', ''cost_for_two'']\<rparr>"

datatype check =
    RowCountTooLow nat int
  | RowCountPassed nat
  | MissingRequiredColumns "string list"
  | AllRequiredColumnsPresent
  | HighMissingPercentage pyfloat
  | MissingValueCheckPassed pyfloat
  | NoNumericColumns

record validation_report =
  passed_checks :: "check list"
  failed_checks :: "check list"
  warnings :: "check list"

definition missing_percentage :: "table \<Rightarrow> pyfloat" where
  "missing_percentage df =
     (if nrows df * length (cols df) = 0 then NaN
      else Fin (fl (fl (fl (of_nat (isnull_sum df)) / fl (of_nat (nrows df * length (cols df))))
                     * 100)))"

definition effective_rules :: "rules option \<Rightarrow> rules" where
  "effective_rules rules_arg = (case rules_arg of None \<Rightarrow> default_rules | Some r \<Rightarrow> r)"

definition missing_required :: "table \<Rightarrow> string list \<Rightarrow> string list" where
  "missing_required df required = filter (\<lambda>col. get_col df col = None) required"

definition empty_report :: validation_report where
  "empty_report = \<lparr>passed_checks = [], failed_checks = [], warnings = []\<rparr>"

definition add_passed :: "check \<Rightarrow> validation_report \<Rightarrow> validation_report" where
  "add_passed k report = report\<lparr>passed_checks := passed_checks report @ [k]\<rparr>"

definition add_failed :: "check \<Rightarrow> validation_report \<Rightarrow> validation_report" where
  "add_failed k report = report\<lparr>failed_checks := failed_checks report @ [k]\<rparr>"

definition add_warning :: "check \<Rightarrow> validation_report \<Rightarrow> validation_report" where
  "add_warning k report = report\<lparr>warnings := warnings report @ [k]\<rparr>"

definition validate_data_quality :: "table \<Rightarrow> rules option \<Rightarrow> error + bool \<times> validation_report" where
  "validate_data_quality df rules_arg =
     (let rules = effective_rules rules_arg
      in case min_rows rules of
           None \<Rightarrow> Inl (KeyError ''min_rows'')
         | Some min_r \<Rightarrow>
        (let report1 =
               (if int (nrows df) < min_r
                then add_failed (RowCountTooLow (nrows df) min_r) empty_report
                else add_passed (RowCountPassed (nrows df)) empty_report)
         in case required_columns rules of
              None \<Rightarrow> Inl (KeyError ''required_columns'')
            | Some required \<Rightarrow>
           (let missing_columns = missing_required df required;
                report2 =
                  (if missing_columns \<noteq> []
                   then add_failed (MissingRequiredColumns missing_columns) report1
                   else add_passed AllRequiredColumnsPresent report1);
                pct = missing_percentage df
            in case max_missing_percentage rules of
                 None \<Rightarrow> Inl (KeyError ''max_missing_percentage'')
               | Some max_pct \<Rightarrow>
              (let report3 =
                     (if flt (Fin max_pct) pct
                      then add_warning (HighMissingPercentage pct) report2
                      else add_passed (MissingValueCheckPassed pct) report2);
                   report4 =
                     (if filter (\<lambda>c. dtype c = Numeric) (cols df) = []
                      then add_warning NoNumericColumns report3
                      else report3);
                   is_valid = (failed_checks report4 = [])
               in Inr (is_valid, report4)))))"

section \<open>Example tables\<close>

definition one_in_three :: table where
  "one_in_three =
     \<lparr>nrows = 1,
      cols = [\<lparr>cname = ''name'', dtype = Object, cells = [Str ''A'']\<rparr>,
              \<lparr>cname = ''rate'', dtype = Object, cells = [Num NaN]\<rparr>,
              \<lparr>cname = ''cuisines'', dtype = Object, cells = [Str ''Thai'']\<rparr>]\<rparr>"

definition mostly_missing :: table where
  "mostly_missing =
     \<lparr>nrows = 160,
      cols = [\<lparr>cname = ''rate'', dtype = Numeric,
               cells = replicate 107 (Num NaN) @ replicate 53 (Num (Fin 4))\<rparr>]\<rparr>"

definition nearly_full :: table where
  "nearly_full =
     \<lparr>nrows = 30000,
      cols = [\<lparr>cname = ''rate'', dtype = Numeric,
               cells = Num NaN # replicate 29999 (Num (Fin 4))\<rparr>]\<rparr>"

definition empty_table :: table where
  "empty_table = \<lparr>nrows = 0, cols = []\<rparr>"

definition fifty_rows :: table where
  "fifty_rows =
     \<lparr>nrows = 50,
      cols = [\<lparr>cname = ''name'', dtype = Object, cells = replicate 50 (Str ''Cafe'')\<rparr>,
              \<lparr>cname = ''rate_clean'', dtype = Numeric, cells = replicate 50 (Num (Fin 4))\<rparr>,
              \<lparr>cname = ''cost_for_two'', dtype = Numeric, cells = replicate 50 (Num (Fin 800))\<rparr>]\<rparr>"

definition no_cost_table :: table where
  "no_cost_table =
     \<lparr>nrows = 2,
      cols = [\<lparr>cname = ''name'', dtype = Object, cells = [Str ''Cafe A'', Str ''Cafe B'']\<rparr>,
              \<lparr>cname = ''rate'', dtype = Object, cells = [Str ''4.1/5'', Num NaN]\<rparr>]\<rparr>"

definition sparse_cost_table :: table where
  "sparse_cost_table =
     \<lparr>nrows = 2,
      cols = [\<lparr>cname = ''name'', dtype = Object, cells = [Str ''Cafe A'', Str ''Cafe B'']\<rparr>,
              \<lparr>cname = ''approx_cost(for two people)'', dtype = Numeric,
                cells = [Num NaN, Num NaN]\<rparr>]\<rparr>"

definition boundary_table :: table where
  "boundary_table =
     \<lparr>nrows = 2,
      cols = [\<lparr>cname = ''cost_for_two'', dtype = Numeric, cells = [Num (Fin 500), Num (Fin 1000)]\<rparr>,
              \<lparr>cname = ''rate_clean'', dtype = Numeric, cells = [Num (Fin 2), Num (Fin (9 / 2))]\<rparr>]\<rparr>"


section \<open>Notions used in the statements about imputation\<close>

text \<open>What one pass of the imputation loop does to a column.\<close>

definition imputed :: "(string \<times> cell) list \<Rightarrow> column \<Rightarrow> column" where
  "imputed kvs d = (case map_of kvs (cname d) of None \<Rightarrow> d | Some v \<Rightarrow> filled d v)"




definition cost_sample :: table where
  "cost_sample =
     \<lparr>nrows = 3,
      cols = [\<lparr>cname = ''name'', dtype = Object,
                cells = [Str '' cafe one'', Str ''Cafe Two'', Str ''cafe three'']\<rparr>,
              \<lparr>cname = ''rate'', dtype = Object, cells = [Str ''4.1/5'', Num NaN, Str ''3.9'']\<rparr>,
              \<lparr>cname = ''approx_cost(for two people)'', dtype = Numeric,
                cells = [Num (Fin 800), Num NaN, Num (Fin 1200)]\<rparr>]\<rparr>"

definition cost_sample_imputed :: table where
  "cost_sample_imputed =
     \<lparr>nrows = 3,
      cols = [\<lparr>cname = ''name'', dtype = Object,
                cells = [Str '' cafe one'', Str ''Cafe Two'', Str ''cafe three'']\<rparr>,
              \<lparr>cname = ''rate'', dtype = Object,
                cells = [Str ''4.1/5'', Str ''0 out of 5'', Str ''3.9'']\<rparr>,
              \<lparr>cname = ''approx_cost(for two people)'', dtype = Numeric,
                cells = [Num (Fin 800), Num (Fin 1000), Num (Fin 1200)]\<rparr>]\<rparr>"


section \<open>Notions used in the statements about deduplication\<close>

text \<open>The positions that a marks keeps.\<close>

definition kept_positions :: "bool list \<Rightarrow> nat list" where
  "kept_positions marks = filter (\<lambda>i. \<not> marks ! i) [0..<length marks]"

definition first_occurrences :: "'a list \<Rightarrow> nat list" where
  "first_occurrences rs = filter (\<lambda>i. rs ! i \<notin> set (take i rs)) [0..<length rs]"

definition two_rows_no_columns :: table where
  "two_rows_no_columns = \<lparr>nrows = 2, cols = []\<rparr>"

definition repeated_rows :: table where
  "repeated_rows =
     \<lparr>nrows = 4,
      cols = [\<lparr>cname = ''name'', dtype = Object,
                cells = [Str ''Cafe A'', Str ''Cafe B'', Str ''Cafe A'', Num NaN]\<rparr>,
              \<lparr>cname = ''votes'', dtype = Numeric,
                cells = [Num (Fin 10), Num NaN, Num (Fin 10), Num NaN]\<rparr>]\<rparr>"

section \<open>Notions used in the statements about type coercion\<close>





section \<open>Notions used in the statements about outlier clipping\<close>








section \<open>Frames as objects: the methods on references\<close>

text \<open>Frames as objects. Python variables hold references to frames; a store lists the
  frames that exist, a reference is a position in it. \<open>df.copy()\<close> (deep by default),
  \<open>df.drop(columns=names)\<close> and \<open>df.drop_duplicates()\<close> return a new frame that shares no
  data with \<open>df\<close>; \<open>df[name] = series\<close> changes the frame \<open>df\<close> itself.\<close>

type_synonym ref = nat

type_synonym store = "table list"

definition df_copy :: "store \<Rightarrow> ref \<Rightarrow> store \<times> ref" where
  "df_copy h df = (h @ [h ! df], length h)"

definition df_drop :: "store \<Rightarrow> ref \<Rightarrow> string list \<Rightarrow> store \<times> ref" where
  "df_drop h df names = (h @ [drop_columns (h ! df) names], length h)"

definition df_drop_duplicates :: "store \<Rightarrow> ref \<Rightarrow> store \<times> ref" where
  "df_drop_duplicates h df = (h @ [drop_duplicates (h ! df)], length h)"

definition df_setitem :: "store \<Rightarrow> ref \<Rightarrow> string \<Rightarrow> column \<Rightarrow> store" where
  "df_setitem h df name c = h[df := set_col (h ! df) name c]"

text \<open>The methods on references. Each returns the store it leaves behind, also when it
  raises, and the reference it returns or the exception.\<close>

fun impute_st :: "(string \<times> cell) list \<Rightarrow> store \<Rightarrow> ref \<Rightarrow> store \<times> (error + unit)" where
  "impute_st [] h df_cleaned = (h, Inr ())"
| "impute_st ((column, strategy) # rest) h df_cleaned =
     (case get_col (h ! df_cleaned) column of
        None \<Rightarrow> impute_st rest h df_cleaned
      | Some c \<Rightarrow>
          (case fillna c strategy of
             Inl e \<Rightarrow> (h, Inl e)
           | Inr c' \<Rightarrow> impute_st rest (df_setitem h df_cleaned column c') df_cleaned))"

definition handle_missing_values_st :: "store \<Rightarrow> ref \<Rightarrow> store \<times> (error + ref)" where
  "handle_missing_values_st h df =
     (let (h1, df_copied) = df_copy h df;
          names = columns_to_drop (h1 ! df_copied);
          (h2, df_cleaned) = (if names \<noteq> [] then df_drop h1 df_copied names else (h1, df_copied))
      in case get_col (h2 ! df_cleaned) COST_COLUMN of
           None \<Rightarrow> (h2, Inl (KeyError COST_COLUMN))
         | Some cost \<Rightarrow>
             (case median cost of
                Inl e \<Rightarrow> (h2, Inl e)
              | Inr m \<Rightarrow>
                  (let (h3, r) = impute_st (imputation_strategy m) h2 df_cleaned
                   in (h3, case r of Inl e \<Rightarrow> Inl e | Inr u \<Rightarrow> Inr df_cleaned))))"

definition remove_duplicates_st :: "store \<Rightarrow> ref \<Rightarrow> store \<times> (error + ref)" where
  "remove_duplicates_st h df = (let (h1, df_cleaned) = df_drop_duplicates h df in (h1, Inr df_cleaned))"

fun standardize_loop_st :: "(rat \<Rightarrow> string) \<Rightarrow> string list \<Rightarrow> store \<Rightarrow> ref \<Rightarrow> store" where
  "standardize_loop_st repr [] h df_cleaned = h"
| "standardize_loop_st repr (column # rest) h df_cleaned =
     (case get_col (h ! df_cleaned) column of
        None \<Rightarrow> standardize_loop_st repr rest h df_cleaned
      | Some c \<Rightarrow>
          standardize_loop_st repr rest
            (df_setitem h df_cleaned column (standardize_column repr c)) df_cleaned)"

definition standardize_text_columns_st ::
  "(rat \<Rightarrow> string) \<Rightarrow> store \<Rightarrow> ref \<Rightarrow> store \<times> (error + ref)" where
  "standardize_text_columns_st repr h df =
     (let (h1, df_cleaned) = df_copy h df
      in (standardize_loop_st repr TEXT_COLUMNS h1 df_cleaned, Inr df_cleaned))"

definition add_rate_clean_st :: "store \<Rightarrow> ref \<Rightarrow> store \<times> (error + unit)" where
  "add_rate_clean_st h df_cleaned =
     (case get_col (h ! df_cleaned) ''rate'' of
        None \<Rightarrow> (h, Inr ())
      | Some r \<Rightarrow>
          (case median (apply_float extract_rating r) of
             Inl e \<Rightarrow> (h, Inl e)
           | Inr m \<Rightarrow>
               (case fillna (apply_float extract_rating r) (Num m) of
                  Inl e \<Rightarrow> (h, Inl e)
                | Inr c \<Rightarrow> (df_setitem h df_cleaned ''rate_clean'' c, Inr ()))))"

definition add_cost_for_two_st :: "store \<Rightarrow> ref \<Rightarrow> store" where
  "add_cost_for_two_st h df_cleaned =
     (case get_col (h ! df_cleaned) COST_COLUMN of
        None \<Rightarrow> h
      | Some c \<Rightarrow> df_setitem h df_cleaned ''cost_for_two'' (apply_float clean_cost c))"

definition correct_data_types_st :: "store \<Rightarrow> ref \<Rightarrow> store \<times> (error + ref)" where
  "correct_data_types_st h df =
     (let (h1, df_cleaned) = df_copy h df;
          (h2, r) = add_rate_clean_st h1 df_cleaned
      in case r of
           Inl e \<Rightarrow> (h2, Inl e)
         | Inr u \<Rightarrow> (add_cost_for_two_st h2 df_cleaned, Inr df_cleaned))"

fun outliers_loop_st ::
  "string list \<Rightarrow> store \<Rightarrow> ref \<Rightarrow> (string \<times> nat) list \<Rightarrow> store \<times> (error + (string \<times> nat) list)" where
  "outliers_loop_st [] h df_cleaned report = (h, Inr report)"
| "outliers_loop_st (col # rest) h df_cleaned report =
     (case get_col (h ! df_cleaned) col of
        None \<Rightarrow> outliers_loop_st rest h df_cleaned report
      | Some c \<Rightarrow>
          (case quantile c (1 / 4) of
             Inl e \<Rightarrow> (h, Inl e)
           | Inr Q1 \<Rightarrow>
               (case quantile c (3 / 4) of
                  Inl e \<Rightarrow> (h, Inl e)
                | Inr Q3 \<Rightarrow>
                    (let lower = lower_bound Q1 Q3; upper = upper_bound Q1 Q3;
                         outliers_count = length (filter (is_outlier lower upper) (cells c))
                     in outliers_loop_st rest (df_setitem h df_cleaned col (clip c lower upper))
                          df_cleaned (report @ [(col, outliers_count)])))))"

definition handle_outliers_st :: "store \<Rightarrow> ref \<Rightarrow> store \<times> (error + ref)" where
  "handle_outliers_st h df =
     (let (h1, df_cleaned) = df_copy h df;
          (h2, r) = outliers_loop_st [''rate_clean'', ''cost_for_two''] h1 df_cleaned []
      in (h2, case r of Inl e \<Rightarrow> Inl e | Inr outlier_report \<Rightarrow> Inr df_cleaned))"

definition add_num_cuisines_st :: "(rat \<Rightarrow> string) \<Rightarrow> store \<Rightarrow> ref \<Rightarrow> store" where
  "add_num_cuisines_st repr h df_with_features =
     (case get_col (h ! df_with_features) ''cuisines'' of
        None \<Rightarrow> h
      | Some c \<Rightarrow>
          df_setitem h df_with_features ''num_cuisines'' (apply_float (count_cuisines repr) c))"

definition add_category_st ::
  "string \<Rightarrow> string \<Rightarrow> pyfloat list \<Rightarrow> string list \<Rightarrow> store \<Rightarrow> ref \<Rightarrow> store \<times> (error + unit)" where
  "add_category_st source target bins labels h df_with_features =
     (case get_col (h ! df_with_features) source of
        None \<Rightarrow> (h, Inr ())
      | Some c \<Rightarrow>
          (case cut c bins labels of
             Inl e \<Rightarrow> (h, Inl e)
           | Inr k \<Rightarrow> (df_setitem h df_with_features target k, Inr ())))"

definition create_features_st ::
  "(rat \<Rightarrow> string) \<Rightarrow> store \<Rightarrow> ref \<Rightarrow> store \<times> (error + ref)" where
  "create_features_st repr h df =
     (let (h1, df_with_features) = df_copy h df;
          h2 = add_num_cuisines_st repr h1 df_with_features;
          (h3, r) = add_category_st ''cost_for_two'' ''cost_category'' COST_BINS COST_LABELS
                      h2 df_with_features
      in case r of
           Inl e \<Rightarrow> (h3, Inl e)
         | Inr u \<Rightarrow>
             (let (h4, r') = add_category_st ''rate_clean'' ''rating_category'' RATING_BINS
                               RATING_LABELS h3 df_with_features
              in (h4, case r' of Inl e \<Rightarrow> Inl e | Inr u \<Rightarrow> Inr df_with_features)))"

text \<open>The cleaning and feature steps of \<open>run_pipeline\<close> (\<open>main.py\<close>), from the loaded frame
  \<open>original_df\<close>: each step is given the frame the step before returned, and an exception
  ends the run.\<close>

definition then_st ::
  "store \<times> (error + ref) \<Rightarrow> (store \<Rightarrow> ref \<Rightarrow> store \<times> (error + ref)) \<Rightarrow> store \<times> (error + ref)" where
  "then_st m f = (case snd m of Inl e \<Rightarrow> (fst m, Inl e) | Inr df \<Rightarrow> f (fst m) df)"

definition run_pipeline_st :: "(rat \<Rightarrow> string) \<Rightarrow> store \<Rightarrow> ref \<Rightarrow> store \<times> (error + ref)" where
  "run_pipeline_st repr h original_df =
     then_st (then_st (then_st (then_st (then_st
       (handle_missing_values_st h original_df)
       remove_duplicates_st)
       (standardize_text_columns_st repr))
       correct_data_types_st)
       handle_outliers_st)
       (create_features_st repr)"

text \<open>What the statements about frames say: every frame of the store before is still there
  and as it was; and a call returns a frame that did not exist before, whose content is
  what the method computes from the content of its argument.\<close>

definition unchanged :: "store \<Rightarrow> store \<Rightarrow> bool" where
  "unchanged h h' = (length h \<le> length h' \<and> (\<forall>r<length h. h' ! r = h ! r))"

definition returns_new :: "store \<Rightarrow> store \<times> (error + ref) \<Rightarrow> error + table \<Rightarrow> bool" where
  "returns_new h m expected =
     (case snd m of
        Inl e \<Rightarrow> expected = Inl e
      | Inr r \<Rightarrow> length h \<le> r \<and> r < length (fst m) \<and> expected = Inr (fst m ! r))"

text \<open>A step that changes one frame of the store only.\<close>

definition in_place :: "store \<Rightarrow> ref \<Rightarrow> store \<Rightarrow> bool" where
  "in_place h r h' = (length h' = length h \<and> (\<forall>r'. r' \<noteq> r \<longrightarrow> h' ! r' = h ! r'))"

section \<open>Properties of the pipeline\<close>

subsection \<open>Quality metrics: the completeness score\<close>

lemma isnull_count_le: "isnull_count c \<le> length (cells c)"
  by (simp add: isnull_count_def)

lemma isnull_sum_cols_le:
  "list_all (\<lambda>c. length (cells c) = n) cs \<Longrightarrow> sum_list (map isnull_count cs) \<le> n * length cs"
proof (induction cs)
  case Nil
  then show ?case by simp
next
  case (Cons c cs)
  then have "isnull_count c \<le> n" using isnull_count_le [of c] by simp
  with Cons show ?case by simp
qed

lemma isnull_sum_le: "wf_table df \<Longrightarrow> isnull_sum df \<le> nrows df * length (cols df)"
  by (simp add: wf_table_def isnull_sum_def isnull_sum_cols_le)

lemma round_half_even_cases:
  "(round_half_even y = \<lfloor>y\<rfloor> \<and> y - of_int \<lfloor>y\<rfloor> \<le> 1 / 2) \<or>
   (round_half_even y = \<lfloor>y\<rfloor> + 1 \<and> 1 / 2 \<le> y - of_int \<lfloor>y\<rfloor>)"
  by (auto simp: round_half_even_def Let_def)

lemma round_half_even_lower:
  assumes "of_int a \<le> y"
  shows "a \<le> round_half_even y"
proof -
  have "a \<le> \<lfloor>y\<rfloor>" using assms by (simp add: le_floor_iff)
  then show ?thesis using round_half_even_cases [of y] by auto
qed

lemma round_half_even_upper:
  assumes "y \<le> of_int b"
  shows "round_half_even y \<le> b"
proof -
  have fb: "\<lfloor>y\<rfloor> \<le> b" using assms by (simp add: floor_le_iff)
  show ?thesis
  proof (cases "round_half_even y = \<lfloor>y\<rfloor>")
    case True
    then show ?thesis using fb by simp
  next
    case False
    then have r: "round_half_even y = \<lfloor>y\<rfloor> + 1" and d: "1 / 2 \<le> y - of_int \<lfloor>y\<rfloor>"
      using round_half_even_cases [of y] by auto
    from d have "of_int \<lfloor>y\<rfloor> < y" by simp
    with assms have "(of_int \<lfloor>y\<rfloor> :: rat) < of_int b" by simp
    then have "\<lfloor>y\<rfloor> < b" by simp
    with r show ?thesis by simp
  qed
qed

lemma round_half_even_near: "\<bar>of_int (round_half_even y) - y\<bar> \<le> 1 / 2"
proof -
  have f1: "of_int \<lfloor>y\<rfloor> \<le> y" and f2: "y < of_int \<lfloor>y\<rfloor> + 1" by linarith+
  from round_half_even_cases [of y] show ?thesis
  proof
    assume "round_half_even y = \<lfloor>y\<rfloor> \<and> y - of_int \<lfloor>y\<rfloor> \<le> 1 / 2"
    then show ?thesis using f1 by simp
  next
    assume h: "round_half_even y = \<lfloor>y\<rfloor> + 1 \<and> 1 / 2 \<le> y - of_int \<lfloor>y\<rfloor>"
    then have "of_int (round_half_even y) - y = of_int \<lfloor>y\<rfloor> + 1 - y" by simp
    then show ?thesis using h f2 by linarith
  qed
qed

lemma round_half_even_of_int: "round_half_even (of_int k) = k"
  by (simp add: round_half_even_def)

lemma round_half_even_mono:
  assumes "x \<le> y"
  shows "round_half_even x \<le> round_half_even y"
proof (rule ccontr)
  assume "\<not> round_half_even x \<le> round_half_even y"
  hence lt: "round_half_even y + 1 \<le> round_half_even x"
    by simp
  have nx: "\<bar>of_int (round_half_even x) - x\<bar> \<le> 1 / 2"
    and ny: "\<bar>of_int (round_half_even y) - y\<bar> \<le> 1 / 2"
    by (rule round_half_even_near)+
  have "(of_int (round_half_even y) :: rat) + 1 \<le> of_int (round_half_even x)"
    using lt by (metis of_int_1 of_int_add of_int_le_iff)
  with nx ny assms have eq: "x = y" and rx: "of_int (round_half_even x) = x + 1 / 2"
    and ry: "of_int (round_half_even y) = y - 1 / 2"
    by linarith+
  from rx ry eq have "(of_int (round_half_even x) :: rat) = of_int (round_half_even y) + 1"
    by simp
  moreover have "round_half_even x = round_half_even y"
    using eq by simp
  ultimately show False
    by simp
qed

lemma of_int_bitlen:
  fixes a :: int
  assumes "0 < a"
  shows "(2 :: rat) powi (bitlen a - 1) \<le> of_int a" and "(of_int a :: rat) < 2 powi (bitlen a)"
proof -
  have b: "2 ^ nat (bitlen a - 1) \<le> a" "a < 2 ^ nat (bitlen a)"
    using bitlen_bounds [OF assms] by simp_all
  have pos: "1 \<le> bitlen a"
    using assms bitlen_eq_zero_iff [of a] bitlen_nonneg [of a] by linarith
  have "(of_int (2 ^ nat (bitlen a - 1)) :: rat) \<le> of_int a"
    using b(1) by (simp only: of_int_le_iff)
  thus "(2 :: rat) powi (bitlen a - 1) \<le> of_int a"
    using pos by (simp add: power_int_def)
  have "(of_int a :: rat) < of_int (2 ^ nat (bitlen a))"
    using b(2) by (simp only: of_int_less_iff)
  thus "(of_int a :: rat) < 2 powi (bitlen a)"
    using pos by (simp add: power_int_def)
qed

lemma binade_bounds:
  assumes "0 < x"
  shows "2 powi (binade x) \<le> x" and "x < 2 powi (binade x + 1)"
proof -
  obtain a b where q: "quotient_of x = (a, b)"
    by (cases "quotient_of x")
  have b: "0 < b"
    using quotient_of_denom_pos [OF q] .
  have x: "x = of_int a / of_int b"
    using quotient_of_div [OF q] .
  have a: "0 < a"
    using assms b unfolding x by (simp add: zero_less_divide_iff)
  define k where "k = bitlen a - bitlen b"
  have lo: "(2 :: rat) powi (k - 1) < x"
  proof -
    have "(2 :: rat) powi (k - 1) * of_int b < 2 powi (k - 1) * 2 powi (bitlen b)"
      using of_int_bitlen(2) [OF b] by (intro mult_strict_left_mono) simp_all
    also have "\<dots> = 2 powi (bitlen a - 1)"
      by (simp add: k_def power_int_add [symmetric])
    also have "\<dots> \<le> of_int a"
      by (rule of_int_bitlen(1) [OF a])
    finally show ?thesis
      using b unfolding x by (simp add: pos_less_divide_eq)
  qed
  have hi: "x < (2 :: rat) powi (k + 1)"
  proof -
    have "(of_int a :: rat) < 2 powi (bitlen a)"
      by (rule of_int_bitlen(2) [OF a])
    also have "\<dots> = 2 powi (k + 1) * 2 powi (bitlen b - 1)"
      by (simp add: k_def power_int_add [symmetric])
    also have "\<dots> \<le> 2 powi (k + 1) * of_int b"
      using of_int_bitlen(1) [OF b] by (intro mult_left_mono) simp_all
    finally show ?thesis
      using b unfolding x by (simp add: pos_divide_less_eq)
  qed
  have bin: "binade x = (if 2 powi k \<le> x then k else k - 1)"
    by (simp add: binade_def q k_def Let_def)
  show "2 powi (binade x) \<le> x"
    using lo by (simp add: bin)
  show "x < 2 powi (binade x + 1)"
    using hi by (simp add: bin not_le)
qed

lemma binade_le:
  assumes "0 < x" and "x \<le> 2 powi k"
  shows "binade x \<le> k"
proof (rule ccontr)
  assume "\<not> binade x \<le> k"
  hence "k + 1 \<le> binade x" by simp
  hence "(2 :: rat) powi (k + 1) \<le> 2 powi (binade x)"
    by (intro power_int_increasing) simp_all
  moreover have "(2 :: rat) powi k < 2 powi (k + 1)"
    by (intro power_int_strict_increasing) simp_all
  ultimately show False
    using binade_bounds(1) [OF assms(1)] assms(2) by linarith
qed

lemma binade_mono:
  assumes "0 < x" and "x \<le> y"
  shows "binade x \<le> binade y"
proof (rule ccontr)
  assume "\<not> binade x \<le> binade y"
  hence "binade y + 1 \<le> binade x" by simp
  hence "(2 :: rat) powi (binade y + 1) \<le> 2 powi (binade x)"
    by (intro power_int_increasing) simp_all
  moreover have "0 < y" using assms by simp
  ultimately show False
    using binade_bounds(1) [OF assms(1)] binade_bounds(2) [OF \<open>0 < y\<close>] assms(2) by linarith
qed

lemma quantum_pos: "0 < (2 :: rat) powi e"
  by simp

lemma powi_split_53: "(2 :: rat) powi 53 * 2 powi (e - 52) = 2 powi (e + 1)"
proof -
  have "(2 :: rat) powi (53 + (e - 52)) = 2 powi 53 * 2 powi (e - 52)"
    by (rule power_int_add) simp
  moreover have "53 + (e - 52) = e + 1"
    by simp
  ultimately show ?thesis
    by (simp only:)
qed

lemma powi_split_52: "(2 :: rat) powi 52 * 2 powi (e - 52) = 2 powi e"
proof -
  have "(2 :: rat) powi (52 + (e - 52)) = 2 powi 52 * 2 powi (e - 52)"
    by (rule power_int_add) simp
  moreover have "52 + (e - 52) = e"
    by simp
  ultimately show ?thesis
    by (simp only:)
qed

lemma fl_pos_nonneg:
  assumes "0 < x"
  shows "0 \<le> fl_pos x"
proof -
  define q :: rat where "q = 2 powi (max (binade x) (- 1022) - 52)"
  have q: "0 < q" by (simp add: q_def)
  have "of_int 0 \<le> x / q"
    using assms q by simp
  hence "0 \<le> round_half_even (x / q)"
    by (rule round_half_even_lower)
  thus ?thesis
    using q by (simp add: fl_pos_def q_def [symmetric] Let_def)
qed

lemma fl_pos_upper:
  assumes "0 < x"
  shows "fl_pos x \<le> 2 powi (max (binade x) (- 1022) + 1)"
proof -
  define e where "e = max (binade x) (- 1022)"
  define q :: rat where "q = 2 powi (e - 52)"
  have q: "0 < q" by (simp add: q_def)
  have "x < 2 powi (binade x + 1)"
    by (rule binade_bounds(2) [OF assms])
  also have "\<dots> \<le> 2 powi (e + 1)"
    by (intro power_int_increasing) (simp_all add: e_def)
  also have "\<dots> = 2 powi 53 * q"
    unfolding q_def by (rule powi_split_53 [symmetric])
  finally have "x / q \<le> 2 powi 53"
    using q by (simp only: pos_divide_le_eq less_imp_le)
  hence "x / q \<le> of_int (2 ^ 53)"
    by simp
  hence "round_half_even (x / q) \<le> 2 ^ 53"
    by (rule round_half_even_upper)
  hence "(of_int (round_half_even (x / q)) :: rat) \<le> of_int (2 ^ 53)"
    by (simp only: of_int_le_iff)
  hence "of_int (round_half_even (x / q)) * q \<le> 2 powi 53 * q"
    using q by (intro mult_right_mono) simp_all
  also have "\<dots> = 2 powi (e + 1)"
    unfolding q_def by (rule powi_split_53)
  finally show ?thesis
    by (simp add: fl_pos_def q_def e_def Let_def)
qed

lemma fl_pos_lower:
  assumes "0 < x" and "- 1022 \<le> binade x"
  shows "2 powi (binade x) \<le> fl_pos x"
proof -
  define e where "e = binade x"
  define q :: rat where "q = 2 powi (e - 52)"
  have q: "0 < q" by (simp add: q_def)
  have m: "max (binade x) (- 1022) = e"
    using assms(2) by (simp add: e_def)
  have "2 powi 52 * q = 2 powi e"
    unfolding q_def by (rule powi_split_52)
  also have "\<dots> \<le> x"
    unfolding e_def by (rule binade_bounds(1) [OF assms(1)])
  finally have "2 powi 52 \<le> x / q"
    using q by (simp only: pos_le_divide_eq)
  hence "of_int (2 ^ 52) \<le> x / q"
    by simp
  hence "2 ^ 52 \<le> round_half_even (x / q)"
    by (rule round_half_even_lower)
  hence "(of_int (2 ^ 52) :: rat) \<le> of_int (round_half_even (x / q))"
    by (simp only: of_int_le_iff)
  hence "2 powi 52 * q \<le> of_int (round_half_even (x / q)) * q"
    using q by (intro mult_right_mono) simp_all
  hence "2 powi e \<le> of_int (round_half_even (x / q)) * q"
    unfolding q_def by (simp only: powi_split_52)
  thus ?thesis
    by (simp add: fl_pos_def m q_def e_def Let_def)
qed

lemma fl_pos_mono:
  assumes "0 < x" and "x \<le> y"
  shows "fl_pos x \<le> fl_pos y"
proof -
  have y: "0 < y" using assms by simp
  define ex where "ex = max (binade x) (- 1022)"
  define ey where "ey = max (binade y) (- 1022)"
  have le: "ex \<le> ey"
    using binade_mono [OF assms] by (simp add: ex_def ey_def)
  show ?thesis
  proof (cases "ex = ey")
    case True
    define q :: rat where "q = 2 powi (ex - 52)"
    have q: "0 < q" by (simp add: q_def)
    have "x / q \<le> y / q"
      using assms(2) q by (simp add: divide_right_mono)
    hence "round_half_even (x / q) \<le> round_half_even (y / q)"
      by (rule round_half_even_mono)
    hence "(of_int (round_half_even (x / q)) :: rat) \<le> of_int (round_half_even (y / q))"
      by (simp only: of_int_le_iff)
    hence "of_int (round_half_even (x / q)) * q \<le> of_int (round_half_even (y / q)) * q"
      using q by (intro mult_right_mono) simp_all
    thus ?thesis
      using True by (simp add: fl_pos_def ex_def [symmetric] ey_def [symmetric] q_def Let_def)
  next
    case False
    hence lt: "ex + 1 \<le> ey" using le by simp
    hence "- 1022 < ey" by (simp add: ex_def)
    hence bin: "binade y = ey" "- 1022 \<le> binade y"
      by (simp_all add: ey_def max_def split: if_splits)
    have "fl_pos x \<le> 2 powi (ex + 1)"
      unfolding ex_def by (rule fl_pos_upper [OF assms(1)])
    also have "\<dots> \<le> 2 powi ey"
      using lt by (intro power_int_increasing) simp_all
    also have "\<dots> \<le> fl_pos y"
      using fl_pos_lower [OF y bin(2)] by (simp add: bin(1))
    finally show ?thesis .
  qed
qed

lemma fl_mono:
  assumes "x \<le> y"
  shows "fl x \<le> fl y"
proof -
  consider "0 < x" | "x = 0" | "x < 0" "y < 0" | "x < 0" "0 \<le> y"
    by linarith
  thus ?thesis
  proof cases
    case 1
    thus ?thesis using assms fl_pos_mono [of x y] by (simp add: fl_def)
  next
    case 2
    thus ?thesis using assms fl_pos_nonneg [of y] by (simp add: fl_def)
  next
    case 3
    have "fl_pos (- y) \<le> fl_pos (- x)"
      using 3 assms by (intro fl_pos_mono) simp_all
    thus ?thesis using 3 by (simp add: fl_def)
  next
    case 4
    have "0 \<le> fl_pos (- x)"
      using 4 by (intro fl_pos_nonneg) simp
    moreover have "0 \<le> fl y"
      using 4 fl_pos_nonneg [of y] by (simp add: fl_def)
    ultimately show ?thesis using 4 by (simp add: fl_def)
  qed
qed

lemma fl_pos_error:
  assumes "0 < x" and "x \<le> 2 powi k" and "- 1022 \<le> k"
  shows "\<bar>fl_pos x - x\<bar> \<le> 2 powi (k - 53)"
proof -
  define e where "e = max (binade x) (- 1022)"
  define q :: rat where "q = 2 powi (e - 52)"
  have q: "0 < q" by (simp add: q_def)
  have e: "e \<le> k"
    using binade_le [OF assms(1,2)] assms(3) by (simp add: e_def)
  define z where "z = x / q"
  have near: "\<bar>of_int (round_half_even z) - z\<bar> \<le> 1 / 2"
    by (rule round_half_even_near)
  have "fl_pos x - x = (of_int (round_half_even z) - z) * q"
    using q by (simp add: fl_pos_def e_def [symmetric] q_def [symmetric] z_def algebra_simps Let_def)
  hence "\<bar>fl_pos x - x\<bar> = \<bar>of_int (round_half_even z) - z\<bar> * q"
    using q by (simp add: abs_mult)
  also have "\<dots> \<le> 1 / 2 * q"
    using near q by (intro mult_right_mono) simp_all
  also have "\<dots> = 2 powi (e - 53)"
    by (simp add: q_def power_int_diff)
  also have "\<dots> \<le> 2 powi (k - 53)"
    using e by (intro power_int_increasing) simp_all
  finally show ?thesis .
qed

lemma fl_error:
  assumes "0 \<le> x" and "x \<le> 2 powi k" and "- 1022 \<le> k"
  shows "\<bar>fl x - x\<bar> \<le> 2 powi (k - 53)"
proof (cases "x = 0")
  case True
  thus ?thesis by (simp add: fl_def)
next
  case False
  hence "0 < x" using assms(1) by simp
  thus ?thesis
    using fl_pos_error [OF _ assms(2,3)] by (simp add: fl_def)
qed

lemma fl_zero: "fl 0 = 0"
  by (simp add: fl_def)

lemma fl_one: "fl 1 = 1"
  by code_simp

lemma fl_hundred: "fl 100 = 100"
  by code_simp

lemma fl_ten_thousand: "fl 10000 = 10000"
  by code_simp

lemma fl_nonneg: "0 \<le> x \<Longrightarrow> 0 \<le> fl x"
  using fl_mono [of 0 x] by (simp add: fl_zero)

lemma fl_example: "fl (1 - fl (107 / 160)) = 1491817376566477 / 4503599627370496"
  by code_simp

lemma fl_le_fixed: "x \<le> r \<Longrightarrow> fl r = r \<Longrightarrow> fl x \<le> r"
  using fl_mono [of x r] by simp

lemma np_round_steps:
  assumes "0 \<le> x" and "x \<le> 1"
  shows "0 \<le> round_half_even (fl (x * 10 ^ 4))" and "round_half_even (fl (x * 10 ^ 4)) \<le> 10000"
proof -
  have "0 \<le> fl (x * 10 ^ 4)"
    using assms(1) by (intro fl_nonneg) simp
  hence "of_int 0 \<le> fl (x * 10 ^ 4)"
    by simp
  thus "0 \<le> round_half_even (fl (x * 10 ^ 4))"
    by (rule round_half_even_lower)
  have "fl (x * 10 ^ 4) \<le> 10000"
    using assms(2) by (intro fl_le_fixed fl_ten_thousand) simp
  hence "fl (x * 10 ^ 4) \<le> of_int 10000"
    by simp
  thus "round_half_even (fl (x * 10 ^ 4)) \<le> 10000"
    by (rule round_half_even_upper)
qed

lemma np_round_unit:
  assumes "0 \<le> x" and "x \<le> 1"
  shows "0 \<le> np_round x 4" and "np_round x 4 \<le> 1"
proof -
  define k where "k = round_half_even (fl (x * 10 ^ 4))"
  have k: "0 \<le> k" "k \<le> 10000"
    unfolding k_def using np_round_steps [OF assms] by simp_all
  have "0 \<le> (of_int k :: rat) / 10 ^ 4"
    using k(1) by simp
  thus "0 \<le> np_round x 4"
    unfolding np_round_def k_def [symmetric] by (rule fl_nonneg)
  have "(of_int k :: rat) \<le> of_int 10000"
    using k(2) by (simp only: of_int_le_iff)
  hence "(of_int k :: rat) / 10 ^ 4 \<le> 1"
    by simp
  thus "np_round x 4 \<le> 1"
    unfolding np_round_def k_def [symmetric] by (intro fl_le_fixed fl_one)
qed

lemma np_round_decimal:
  assumes "0 \<le> x" and "x \<le> 1"
  shows "\<exists>k. 0 \<le> k \<and> k \<le> 10000 \<and> np_round x 4 = fl (of_int k / 10000)"
  using np_round_steps [OF assms] by (intro exI [of _ "round_half_even (fl (x * 10 ^ 4))"])
    (simp add: np_round_def)

lemma np_round_one: "np_round 1 4 = 1"
  by code_simp

lemma np_round_near:
  assumes "0 \<le> x" and "x \<le> 1"
  shows "\<bar>np_round x 4 - x\<bar> \<le> 1 / 20000 + 1 / 2 ^ 51"
proof -
  define y where "y = fl (x * 10 ^ 4)"
  define k where "k = round_half_even y"
  have k: "0 \<le> k" "k \<le> 10000"
    unfolding k_def y_def using np_round_steps [OF assms] by simp_all
  have "x * 10 ^ 4 \<le> 2 powi 14"
  proof -
    have "x * 10 ^ 4 \<le> 10000" using assms(2) by simp
    also have "\<dots> \<le> (2 :: rat) powi 14" by simp
    finally show ?thesis .
  qed
  hence "\<bar>y - x * 10 ^ 4\<bar> \<le> 2 powi (14 - 53)"
    unfolding y_def using assms(1) by (intro fl_error) simp_all
  hence e1: "\<bar>y - x * 10000\<bar> \<le> 1 / 2 ^ 39"
    by (simp add: power_int_minus field_simps)
  have e2: "\<bar>of_int k - y\<bar> \<le> 1 / 2"
    unfolding k_def by (rule round_half_even_near)
  have q: "0 \<le> (of_int k :: rat) / 10000" "(of_int k :: rat) / 10000 \<le> 2 powi 0"
    using k by simp_all
  have "\<bar>fl (of_int k / 10000) - of_int k / 10000\<bar> \<le> 2 powi (0 - 53)"
    using q by (intro fl_error) simp_all
  hence e3: "\<bar>fl (of_int k / 10000) - of_int k / 10000\<bar> \<le> 1 / 2 ^ 53"
    by (simp add: power_int_minus field_simps)
  have s: "np_round x 4 = fl (of_int k / 10000)"
    by (simp add: np_round_def k_def y_def)
  have "of_int k / 10000 - x = (of_int k - x * 10000) / 10000"
    by (simp add: field_simps)
  hence "\<bar>of_int k / 10000 - x\<bar> = \<bar>of_int k - x * 10000\<bar> / 10000"
    by (simp only: abs_divide abs_numeral)
  also have "\<dots> \<le> (1 / 2 + 1 / 2 ^ 39) / 10000"
    using e1 e2 by (intro divide_right_mono) linarith+
  finally have e4: "\<bar>of_int k / 10000 - x\<bar> \<le> (1 / 2 + 1 / 2 ^ 39) / 10000" .
  have "\<bar>np_round x 4 - x\<bar> \<le> 1 / 2 ^ 53 + (1 / 2 + 1 / 2 ^ 39) / 10000"
    unfolding s using e3 e4 by linarith
  also have "\<dots> \<le> 1 / 20000 + 1 / 2 ^ 51"
    by simp
  finally show ?thesis .
qed

text \<open>An integer of at most 53 bits is a double.\<close>

lemma fl_pos_exact:
  assumes "0 < x" and "x / 2 powi (max (binade x) (- 1022) - 52) = of_int n"
  shows "fl_pos x = x"
proof -
  define q :: rat where "q = 2 powi (max (binade x) (- 1022) - 52)"
  have q: "0 < q" by (simp add: q_def)
  have "fl_pos x = of_int (round_half_even (of_int n)) * q"
    using assms(2) by (simp add: fl_pos_def Let_def q_def)
  also have "\<dots> = of_int n * q"
    by (simp add: round_half_even_of_int)
  also have "\<dots> = x"
    using assms(2) q unfolding q_def [symmetric] by (simp add: field_simps)
  finally show ?thesis .
qed

lemma fl_of_nat:
  assumes "n \<le> 2 ^ 53"
  shows "fl (of_nat n) = of_nat n"
proof (cases "n = 0")
  case True
  thus ?thesis by (simp add: fl_zero)
next
  case False
  define x :: rat where "x = of_nat n"
  have x: "0 < x" "1 \<le> x" using False by (simp_all add: x_def)
  define e where "e = binade x"
  have e0: "0 \<le> e"
  proof (rule ccontr)
    assume "\<not> 0 \<le> e"
    hence "e + 1 \<le> 0" by simp
    hence "(2 :: rat) powi (e + 1) \<le> 2 powi 0"
      by (intro power_int_increasing) simp_all
    thus False
      using binade_bounds(2) [OF x(1)] x(2) by (simp add: e_def)
  qed
  have xle: "x \<le> 2 powi 53"
  proof -
    have "(of_nat n :: rat) \<le> of_nat (2 ^ 53)"
      using assms by (simp only: of_nat_le_iff)
    thus ?thesis by (simp add: x_def)
  qed
  hence e53: "e \<le> 53"
    unfolding e_def by (rule binade_le [OF x(1)])
  have m: "max (binade x) (- 1022) = e"
    using e0 by (simp add: e_def)
  have "\<exists>k. x / 2 powi (e - 52) = of_int k"
  proof (cases "e = 53")
    case True
    have "2 powi 53 \<le> x"
      using binade_bounds(1) [OF x(1)] by (simp add: e_def [symmetric] True)
    hence "x = 2 powi 53"
      using xle by simp
    hence "x / 2 powi (e - 52) = of_int (2 ^ 52)"
      by (simp add: True)
    thus ?thesis ..
  next
    case False
    hence "0 \<le> 52 - e" using e53 by simp
    have "x / 2 powi (e - 52) = x * 2 powi (52 - e)"
      using power_int_minus [of "2 :: rat" "e - 52"] by (simp add: field_simps)
    also have "\<dots> = of_nat n * 2 ^ nat (52 - e)"
      using \<open>0 \<le> 52 - e\<close> by (simp add: power_int_def x_def)
    also have "\<dots> = of_int (int n * 2 ^ nat (52 - e))"
      by simp
    finally show ?thesis ..
  qed
  then obtain k where "x / 2 powi (max (binade x) (- 1022) - 52) = of_int k"
    unfolding m by blast
  from fl_pos_exact [OF x(1) this] show ?thesis
    using x(1) by (simp add: fl_def x_def)
qed

lemma isnull_sum_cells:
  "isnull_sum df = sum_list (map (\<lambda>c. length (filter isna (cells c))) (cols df))"
  by (simp add: isnull_sum_def isnull_count_def cong: map_cong)

lemma missing_ratio:
  assumes "m \<le> t" and "0 < t"
  shows "0 \<le> fl (fl (of_nat m) / fl (of_nat t))" and "fl (fl (of_nat m) / fl (of_nat t)) \<le> 1"
proof -
  have t1: "1 \<le> fl (of_nat t)"
    using assms(2) fl_mono [of 1 "of_nat t"] by (simp add: fl_one)
  have m0: "0 \<le> fl (of_nat m)"
    by (rule fl_nonneg) simp
  have mt: "fl (of_nat m) \<le> fl (of_nat t)"
    using assms(1) by (intro fl_mono) simp
  have "0 \<le> fl (of_nat m) / fl (of_nat t)"
    using m0 t1 by simp
  thus "0 \<le> fl (fl (of_nat m) / fl (of_nat t))"
    by (rule fl_nonneg)
  have "fl (of_nat m) / fl (of_nat t) \<le> 1"
    using mt t1 by (simp add: divide_le_eq_1)
  thus "fl (fl (of_nat m) / fl (of_nat t)) \<le> 1"
    by (intro fl_le_fixed fl_one)
qed

lemma complement_unit:
  assumes "0 \<le> r" and "r \<le> 1"
  shows "0 \<le> fl (1 - r)" and "fl (1 - r) \<le> 1"
proof -
  show "0 \<le> fl (1 - r)"
    using assms(2) by (intro fl_nonneg) simp
  show "fl (1 - r) \<le> 1"
    using assms(1) by (intro fl_le_fixed fl_one) simp
qed

lemma score_near:
  assumes "m \<le> t" and "0 < t" and "t \<le> 2 ^ 53"
  shows "\<bar>np_round (fl (1 - fl (fl (of_nat m) / fl (of_nat t)))) 4 - (1 - of_nat m / of_nat t)\<bar>
           \<le> 1 / 20000 + 1 / 2 ^ 50"
proof -
  define r where "r = fl (of_nat m / of_nat t :: rat)"
  define x where "x = fl (1 - r)"
  have m: "fl (of_nat m) = of_nat m"
    using assms(1,3) by (intro fl_of_nat) simp
  have t: "fl (of_nat t) = of_nat t"
    using assms(3) by (rule fl_of_nat)
  have q: "0 \<le> (of_nat m / of_nat t :: rat)" "(of_nat m / of_nat t :: rat) \<le> 2 powi 0"
    using assms(1,2) by (simp_all add: divide_le_eq_1)
  have "\<bar>r - of_nat m / of_nat t\<bar> \<le> 2 powi (0 - 53)"
    unfolding r_def using q by (intro fl_error) simp_all
  hence e1: "\<bar>r - of_nat m / of_nat t\<bar> \<le> 1 / 2 ^ 53"
    by (simp add: power_int_minus field_simps)
  have r: "0 \<le> r" "r \<le> 1"
    using missing_ratio [OF assms(1,2)] by (simp_all add: r_def m t)
  have "\<bar>x - (1 - r)\<bar> \<le> 2 powi (0 - 53)"
    unfolding x_def using r by (intro fl_error) simp_all
  hence e2: "\<bar>x - (1 - r)\<bar> \<le> 1 / 2 ^ 53"
    by (simp add: power_int_minus field_simps)
  have x: "0 \<le> x" "x \<le> 1"
    unfolding x_def using complement_unit [OF r] by simp_all
  have e3: "\<bar>np_round x 4 - x\<bar> \<le> 1 / 20000 + 1 / 2 ^ 51"
    by (rule np_round_near [OF x])
  have "\<bar>np_round x 4 - (1 - of_nat m / of_nat t)\<bar> \<le> 1 / 20000 + 1 / 2 ^ 51 + 1 / 2 ^ 53 + 1 / 2 ^ 53"
    using e1 e2 e3 by linarith
  also have "\<dots> \<le> 1 / 20000 + 1 / 2 ^ 50"
    by simp
  finally show ?thesis
    by (simp add: x_def r_def m t)
qed

text \<open>
  Claim C5, as the code has it. For a well-formed table the completeness score lies in
  [0, 1] and is 0 when the table has no cells. When it has cells, the score is the float
  \<open>1 - missing_cells / total_cells\<close> rounded by numpy to four decimal places: it is the
  float nearest to \<open>k / 10000\<close> for an integer \<open>k\<close> between 0 and 10000; for a table of at
  most \<open>2\<^sup>5\<^sup>3\<close> cells it is within \<open>1/20000 + 2\<^sup>-\<^sup>5\<^sup>0\<close> of the exact value; and it is 1 when no
  missing cell remains.
\<close>

theorem completeness_score_rounded:
  "wf_table df \<longrightarrow>
     (let total_cells = nrows df * length (cols df);
          missing_cells = sum_list (map (\<lambda>c. length (filter isna (cells c))) (cols df));
          score = completeness_score (calculate_quality_metrics df)
      in 0 \<le> score \<and> score \<le> 1 \<and>
         (total_cells = 0 \<longrightarrow> score = 0) \<and>
         (0 < total_cells \<longrightarrow>
            score = np_round (fl (1 - fl (fl (of_nat missing_cells) / fl (of_nat total_cells)))) 4 \<and>
            (\<exists>k. 0 \<le> k \<and> k \<le> 10000 \<and> score = fl (of_int k / 10000)) \<and>
            (total_cells \<le> 2 ^ 53 \<longrightarrow>
               \<bar>score - (1 - of_nat missing_cells / of_nat total_cells)\<bar>
                 \<le> 1 / 20000 + 1 / 2 ^ 50) \<and>
            (missing_cells = 0 \<longrightarrow> score = 1)))"
proof
  assume wf: "wf_table df"
  define t where "t = nrows df * length (cols df)"
  define m where "m = sum_list (map (\<lambda>c. length (filter isna (cells c))) (cols df))"
  define x where "x = fl (1 - fl (fl (of_nat m) / fl (of_nat t)))"
  have m: "isnull_sum df = m"
    by (simp add: m_def isnull_sum_cells)
  have mt: "m \<le> t"
    unfolding m [symmetric] t_def using wf by (rule isnull_sum_le)
  have score: "completeness_score (calculate_quality_metrics df) = (if 0 < t then np_round x 4 else 0)"
    by (simp add: calculate_quality_metrics_def Let_def t_def m x_def)
  have x01: "0 \<le> x \<and> x \<le> 1" if "0 < t"
    unfolding x_def using complement_unit [OF missing_ratio [OF mt that]] by simp
  have b: "0 \<le> np_round x 4 \<and> np_round x 4 \<le> 1" if "0 < t"
    using x01 [OF that] np_round_unit [of x] by simp
  have d: "\<exists>k. 0 \<le> k \<and> k \<le> 10000 \<and> np_round x 4 = fl (of_int k / 10000)" if "0 < t"
    using x01 [OF that] np_round_decimal [of x] by simp
  have n: "\<bar>np_round x 4 - (1 - of_nat m / of_nat t)\<bar> \<le> 1 / 20000 + 1 / 2 ^ 50"
    if "0 < t" "t \<le> 2 ^ 53"
    unfolding x_def using mt that by (rule score_near)
  have one: "np_round x 4 = 1" if "m = 0"
    using that by (simp add: x_def fl_zero fl_one np_round_one)
  show "let total_cells = nrows df * length (cols df);
          missing_cells = sum_list (map (\<lambda>c. length (filter isna (cells c))) (cols df));
          score = completeness_score (calculate_quality_metrics df)
      in 0 \<le> score \<and> score \<le> 1 \<and>
         (total_cells = 0 \<longrightarrow> score = 0) \<and>
         (0 < total_cells \<longrightarrow>
            score = np_round (fl (1 - fl (fl (of_nat missing_cells) / fl (of_nat total_cells)))) 4 \<and>
            (\<exists>k. 0 \<le> k \<and> k \<le> 10000 \<and> score = fl (of_int k / 10000)) \<and>
            (total_cells \<le> 2 ^ 53 \<longrightarrow>
               \<bar>score - (1 - of_nat missing_cells / of_nat total_cells)\<bar>
                 \<le> 1 / 20000 + 1 / 2 ^ 50) \<and>
            (missing_cells = 0 \<longrightarrow> score = 1))"
    unfolding Let_def t_def [symmetric] m_def [symmetric] score x_def [symmetric]
    using b d n one by simp
qed

lemma replicate_missing:
  "length (filter isna (replicate n (Num NaN))) = n"
  "length (filter isna (replicate n (Num (Fin a)))) = 0"
  by simp_all

lemma mostly_missing_facts:
  "wf_table mostly_missing"
  "sum_list (map (\<lambda>c. length (filter isna (cells c))) (cols mostly_missing)) = 107"
  "nrows mostly_missing * length (cols mostly_missing) = 160"
  by (simp_all add: mostly_missing_def wf_table_def)

lemma mostly_missing_score:
  "np_round (fl (1 - fl (fl 107 / fl 160))) 4 = fl (3313 / 10000)"
  by code_simp

theorem completeness_score_rounded_witness:
  "wf_table mostly_missing \<and>
   sum_list (map (\<lambda>c. length (filter isna (cells c))) (cols mostly_missing)) = 107 \<and>
   nrows mostly_missing * length (cols mostly_missing) = 160 \<and>
   completeness_score (calculate_quality_metrics mostly_missing) = fl (3313 / 10000) \<and>
   0 \<le> completeness_score (calculate_quality_metrics mostly_missing) \<and>
   completeness_score (calculate_quality_metrics mostly_missing) \<le> 1 \<and>
   \<bar>completeness_score (calculate_quality_metrics mostly_missing) - (1 - 107 / 160)\<bar>
     \<le> 1 / 20000 + 1 / 2 ^ 50"
proof -
  have s: "completeness_score (calculate_quality_metrics mostly_missing) = fl (3313 / 10000)"
    using mostly_missing_score
    by (simp add: calculate_quality_metrics_def Let_def mostly_missing_facts isnull_sum_cells)
  note T = completeness_score_rounded [of mostly_missing, THEN mp, OF mostly_missing_facts(1),
      unfolded Let_def mostly_missing_facts(2,3)]
  have pos: "(0 :: nat) < 160" and le: "(160 :: nat) \<le> 2 ^ 53"
    by simp_all
  note n = T [THEN conjunct2, THEN conjunct2, THEN conjunct2, THEN mp, OF pos, THEN conjunct2,
      THEN conjunct2, THEN conjunct1, THEN mp, OF le]
  from n have "\<bar>completeness_score (calculate_quality_metrics mostly_missing) - (1 - 107 / 160)\<bar>
          \<le> 1 / 20000 + 1 / 2 ^ 50"
    by simp
  with T [THEN conjunct1] T [THEN conjunct2, THEN conjunct1]
  have "0 \<le> completeness_score (calculate_quality_metrics mostly_missing) \<and>
        completeness_score (calculate_quality_metrics mostly_missing) \<le> 1 \<and>
        \<bar>completeness_score (calculate_quality_metrics mostly_missing) - (1 - 107 / 160)\<bar>
          \<le> 1 / 20000 + 1 / 2 ^ 50"
    by (intro conjI)
  with s mostly_missing_facts show ?thesis
    by blast
qed

text \<open>
  The claim as stated fails three times. The table without cells has no missing cell and
  the score 0, not 1. A table of three cells with one missing has the float nearest to
  0.6667 as its score, which is not \<open>1 - 1/3\<close>. And a table of 30000 cells with one
  missing has the score 1: a score of 1 does not say that no missing cell remains.
\<close>

lemma one_in_three_facts:
  "wf_table one_in_three" "isnull_sum one_in_three = 1"
  "nrows one_in_three * length (cols one_in_three) = 3"
  by (simp_all add: one_in_three_def wf_table_def isnull_sum_def isnull_count_def)

lemma nearly_full_facts:
  "wf_table nearly_full" "isnull_sum nearly_full = 1"
  "nrows nearly_full * length (cols nearly_full) = 30000"
  by (simp_all add: nearly_full_def wf_table_def isnull_sum_def isnull_count_def)

lemma rounded_scores:
  "np_round (fl (1 - fl (fl 1 / fl 3))) 4 = fl (6667 / 10000)"
  "fl (6667 / 10000) \<noteq> 1 - 1 / 3"
  "np_round (fl (1 - fl (fl 1 / fl 30000))) 4 = 1"
  by code_simp+

theorem completeness_score_counterexample:
  "wf_table empty_table \<and> isnull_sum empty_table = 0 \<and>
   completeness_score (calculate_quality_metrics empty_table) \<noteq> 1 \<and>
   wf_table one_in_three \<and>
   completeness_score (calculate_quality_metrics one_in_three) = fl (6667 / 10000) \<and>
   completeness_score (calculate_quality_metrics one_in_three)
     \<noteq> 1 - of_nat (isnull_sum one_in_three)
           / of_nat (nrows one_in_three * length (cols one_in_three)) \<and>
   wf_table nearly_full \<and> isnull_sum nearly_full = 1 \<and>
   completeness_score (calculate_quality_metrics nearly_full) = 1"
proof -
  have s: "completeness_score (calculate_quality_metrics one_in_three) = fl (6667 / 10000)"
    using rounded_scores(1) by (simp add: calculate_quality_metrics_def Let_def one_in_three_facts)
  have e: "completeness_score (calculate_quality_metrics empty_table) = 0"
    by (simp add: calculate_quality_metrics_def empty_table_def)
  have f: "completeness_score (calculate_quality_metrics nearly_full) = 1"
    using rounded_scores(3) by (simp add: calculate_quality_metrics_def Let_def nearly_full_facts)
  have w: "wf_table empty_table \<and> isnull_sum empty_table = 0"
    by (simp add: empty_table_def wf_table_def isnull_sum_def)
  show ?thesis
    unfolding s e f using w rounded_scores(2) by (simp add: one_in_three_facts nearly_full_facts)
qed

subsection \<open>Column lookup and assignment\<close>

lemma find_map_replace_same:
  "cname c' = n \<Longrightarrow> find (\<lambda>d. cname d = n) xs \<noteq> None \<Longrightarrow>
   find (\<lambda>d. cname d = n) (map (\<lambda>d. if cname d = n then c' else d) xs) = Some c'"
  by (induction xs) auto

lemma find_map_replace_other:
  "cname c' = n \<Longrightarrow> m \<noteq> n \<Longrightarrow>
   find (\<lambda>d. cname d = m) (map (\<lambda>d. if cname d = n then c' else d) xs)
     = find (\<lambda>d. cname d = m) xs"
  by (induction xs) auto

lemma find_append_none:
  "find P xs = None \<Longrightarrow> find P (xs @ ys) = find P ys"
  by (induction xs) (auto split: if_splits)

lemma find_append_some:
  "find P xs = Some x \<Longrightarrow> find P (xs @ ys) = Some x"
  by (induction xs) (auto split: if_splits)

lemma get_col_set_col_same: "get_col (set_col df n c) n = Some (c\<lparr>cname := n\<rparr>)"
proof (cases "get_col df n")
  case None
  then show ?thesis
    by (simp add: set_col_def get_col_def find_append_none)
next
  case (Some a)
  then show ?thesis
    by (simp add: set_col_def get_col_def find_map_replace_same)
qed

lemma get_col_set_col_other: "m \<noteq> n \<Longrightarrow> get_col (set_col df n c) m = get_col df m"
proof (cases "get_col df n")
  case None
  assume mn: "m \<noteq> n"
  show ?thesis
  proof (cases "get_col df m")
    case None
    then show ?thesis using \<open>get_col df n = None\<close> mn
      by (simp add: set_col_def get_col_def find_append_none)
  next
    case (Some a)
    then show ?thesis using \<open>get_col df n = None\<close> mn
      by (simp add: set_col_def get_col_def find_append_some)
  qed
next
  case (Some a)
  assume "m \<noteq> n"
  then show ?thesis using Some
    by (simp add: set_col_def get_col_def find_map_replace_other)
qed


subsection \<open>Missing-value handling without the cost column\<close>

lemma find_filter_none: "find P xs = None \<Longrightarrow> find P (filter Q xs) = None"
  by (induction xs) (auto split: if_splits)

lemma get_col_drop_columns_none:
  "get_col df n = None \<Longrightarrow> get_col (drop_columns df names) n = None"
  by (simp add: get_col_def drop_columns_def find_filter_none)

lemma handle_missing_values_needs_cost:
  "get_col df COST_COLUMN = None \<Longrightarrow> handle_missing_values df = Inl (KeyError COST_COLUMN)"
  by (simp add: handle_missing_values_def after_drop_def Let_def get_col_drop_columns_none)

text \<open>
  Claim C1 is not what \<open>handle_missing_values\<close> does: the imputation dictionary reads
  \<open>df_cleaned['approx_cost(for two people)']\<close> before the loop that tests for the column.
  On a table without the cost column, and on one whose cost column the sparse-column
  threshold drops, the method raises \<open>KeyError\<close>.
\<close>

theorem handle_missing_values_raises_without_cost:
  "wf_table no_cost_table \<and>
   handle_missing_values no_cost_table = Inl (KeyError ''approx_cost(for two people)'') \<and>
   wf_table sparse_cost_table \<and>
   handle_missing_values sparse_cost_table = Inl (KeyError ''approx_cost(for two people)'')"
  by (simp add: no_cost_table_def sparse_cost_table_def wf_table_def handle_missing_values_def
      after_drop_def columns_to_drop_def isnull_count_def MISSING_THRESHOLD_def drop_columns_def get_col_def
      COST_COLUMN_def)

subsection \<open>Feature engineering: the cost and rating categories\<close>

lemma cut_cost_positive:
  "0 < x \<Longrightarrow> category_cell COST_BINS COST_LABELS (Num (Fin x)) =
     Str (if x \<le> 500 then ''Budget'' else if x \<le> 1000 then ''Moderate''
          else if x \<le> 2000 then ''Expensive'' else ''Premium'')"
  by (simp add: category_cell_def COST_BINS_def COST_LABELS_def fle_def)

lemma cut_cost_negative: "x < 0 \<Longrightarrow> category_cell COST_BINS COST_LABELS (Num (Fin x)) = Num NaN"
  by (simp add: category_cell_def COST_BINS_def COST_LABELS_def fle_def)

lemma cut_rating_inside:
  "0 < x \<Longrightarrow> x \<le> 5 \<Longrightarrow> category_cell RATING_BINS RATING_LABELS (Num (Fin x)) =
     Str (if x \<le> 2 then ''Poor'' else if x \<le> 3 then ''Average''
          else if x \<le> 4 then ''Good'' else ''Excellent'')"
  by (simp add: category_cell_def RATING_BINS_def RATING_LABELS_def fle_def)

lemma cut_rating_outside:
  "x < 0 \<or> 5 < x \<Longrightarrow> category_cell RATING_BINS RATING_LABELS (Num (Fin x)) = Num NaN"
  by (auto simp: category_cell_def RATING_BINS_def RATING_LABELS_def fle_def)

lemma cut_value_nan: "cut_value bins labels NaN = Num NaN"
  by (induction bins labels NaN rule: cut_value.induct) (simp_all add: fle_def)

lemma category_cell_nan: "category_cell bins labels (Num NaN) = Num NaN"
  by (simp add: category_cell_def cut_value_nan)

lemma cut_cells: "cut c bins labels = Inr k \<Longrightarrow>
  cname k = cname c \<and> dtype k = Category \<and> cells k = map (category_cell bins labels) (cells c)"
  by (auto simp: cut_def split: if_splits)

lemma add_num_cuisines_other:
  "n \<noteq> ''num_cuisines'' \<Longrightarrow> get_col (add_num_cuisines repr df) n = get_col df n"
  by (simp add: add_num_cuisines_def get_col_set_col_other split: option.splits)

lemma add_category_target:
  assumes "add_category source target bins labels df = Inr df'"
    and "get_col df source = Some c"
  shows "get_col df' target
           = Some \<lparr>cname = target, dtype = Category,
                   cells = map (category_cell bins labels) (cells c)\<rparr>"
proof -
  from assms obtain k where k: "cut c bins labels = Inr k" and d: "df' = set_col df target k"
    by (auto simp: add_category_def split: sum.splits)
  show ?thesis
    using cut_cells [OF k] by (simp add: d get_col_set_col_same)
qed

lemma add_category_other:
  assumes "add_category source target bins labels df = Inr df'" and "n \<noteq> target"
  shows "get_col df' n = get_col df n"
  using assms
  by (auto simp: add_category_def get_col_set_col_other split: option.splits sum.splits)

lemma create_features_cost_category:
  assumes ok: "create_features repr df = Inr df'"
    and c: "get_col df ''cost_for_two'' = Some c"
  shows "get_col df' ''cost_category''
           = Some \<lparr>cname = ''cost_category'', dtype = Category,
                   cells = map (category_cell COST_BINS COST_LABELS) (cells c)\<rparr>"
proof -
  from ok obtain df2 where
    s2: "add_category ''cost_for_two'' ''cost_category'' COST_BINS COST_LABELS
           (add_num_cuisines repr df) = Inr df2"
    and s3: "add_category ''rate_clean'' ''rating_category'' RATING_BINS RATING_LABELS df2 = Inr df'"
    by (auto simp: create_features_def split: sum.splits)
  have "get_col (add_num_cuisines repr df) ''cost_for_two'' = Some c"
    using c by (simp add: add_num_cuisines_other)
  from add_category_target [OF s2 this] show ?thesis
    using add_category_other [OF s3, of "''cost_category''"] by simp
qed

lemma create_features_rating_category:
  assumes ok: "create_features repr df = Inr df'"
    and c: "get_col df ''rate_clean'' = Some c"
  shows "get_col df' ''rating_category''
           = Some \<lparr>cname = ''rating_category'', dtype = Category,
                   cells = map (category_cell RATING_BINS RATING_LABELS) (cells c)\<rparr>"
proof -
  from ok obtain df2 where
    s2: "add_category ''cost_for_two'' ''cost_category'' COST_BINS COST_LABELS
           (add_num_cuisines repr df) = Inr df2"
    and s3: "add_category ''rate_clean'' ''rating_category'' RATING_BINS RATING_LABELS df2 = Inr df'"
    by (auto simp: create_features_def split: sum.splits)
  have "get_col df2 ''rate_clean'' = Some c"
    using c add_category_other [OF s2, of "''rate_clean''"] by (simp add: add_num_cuisines_other)
  from add_category_target [OF s3 this] show ?thesis .
qed


text \<open>
  Claim C2, as the code has it. When \<open>create_features\<close> returns, the column
  \<open>cost_category\<close> holds the category of each cell of \<open>cost_for_two\<close> and \<open>rating_category\<close>
  that of each cell of \<open>rate_clean\<close>. The intervals are open on the left and closed on the
  right: a cost above 0 is Budget up to 500, Moderate up to 1000, Expensive up to 2000 and
  Premium beyond; a rating above 0 is Poor up to 2, Average up to 3, Good up to 4 and
  Excellent up to 5. A negative value, a rating above 5 and a missing value get the
  missing category.
\<close>

theorem create_features_bins_right_closed:
  "(create_features repr df = Inr df' \<longrightarrow>
      (\<forall>c. get_col df ''cost_for_two'' = Some c \<longrightarrow>
           get_col df' ''cost_category''
             = Some \<lparr>cname = ''cost_category'', dtype = Category,
                     cells = map (category_cell COST_BINS COST_LABELS) (cells c)\<rparr>) \<and>
      (\<forall>c. get_col df ''rate_clean'' = Some c \<longrightarrow>
           get_col df' ''rating_category''
             = Some \<lparr>cname = ''rating_category'', dtype = Category,
                     cells = map (category_cell RATING_BINS RATING_LABELS) (cells c)\<rparr>)) \<and>
   (0 < x \<longrightarrow>
      category_cell COST_BINS COST_LABELS (Num (Fin x)) =
        Str (if x \<le> 500 then ''Budget'' else if x \<le> 1000 then ''Moderate''
             else if x \<le> 2000 then ''Expensive'' else ''Premium'')) \<and>
   (x < 0 \<longrightarrow> category_cell COST_BINS COST_LABELS (Num (Fin x)) = Num NaN) \<and>
   (0 < x \<and> x \<le> 5 \<longrightarrow>
      category_cell RATING_BINS RATING_LABELS (Num (Fin x)) =
        Str (if x \<le> 2 then ''Poor'' else if x \<le> 3 then ''Average''
             else if x \<le> 4 then ''Good'' else ''Excellent'')) \<and>
   (x < 0 \<or> 5 < x \<longrightarrow> category_cell RATING_BINS RATING_LABELS (Num (Fin x)) = Num NaN) \<and>
   category_cell COST_BINS COST_LABELS (Num NaN) = Num NaN \<and>
   category_cell RATING_BINS RATING_LABELS (Num NaN) = Num NaN"
  using create_features_cost_category [of repr df df']
    create_features_rating_category [of repr df df']
    cut_cost_positive [of x] cut_cost_negative [of x]
    cut_rating_inside [of x] cut_rating_outside [of x]
  by (simp add: category_cell_nan)

lemma boundary_table_features:
  "create_features (\<lambda>r. []) boundary_table =
     Inr \<lparr>nrows = 2,
          cols = cols boundary_table @
            [\<lparr>cname = ''cost_category'', dtype = Category, cells = [Str ''Budget'', Str ''Moderate'']\<rparr>,
             \<lparr>cname = ''rating_category'', dtype = Category, cells = [Str ''Poor'', Str ''Excellent'']\<rparr>]\<rparr>"
  by (simp add: create_features_def add_category_def add_num_cuisines_def boundary_table_def
      get_col_def set_col_def cut_def category_cell_def COST_BINS_def COST_LABELS_def
      RATING_BINS_def RATING_LABELS_def fle_def)

theorem create_features_bins_right_closed_witness:
  "\<exists>df'. create_features (\<lambda>r. []) boundary_table = Inr df' \<and>
     get_col df' ''cost_category''
       = Some \<lparr>cname = ''cost_category'', dtype = Category,
               cells = map (category_cell COST_BINS COST_LABELS) [Num (Fin 500), Num (Fin 1000)]\<rparr> \<and>
     category_cell COST_BINS COST_LABELS (Num (Fin 500)) = Str ''Budget'' \<and>
     category_cell RATING_BINS RATING_LABELS (Num (Fin 2)) = Str ''Poor''"
proof -
  obtain df' where ok: "create_features (\<lambda>r. []) boundary_table = Inr df'"
    using boundary_table_features by blast
  have c: "get_col boundary_table ''cost_for_two''
             = Some \<lparr>cname = ''cost_for_two'', dtype = Numeric, cells = [Num (Fin 500), Num (Fin 1000)]\<rparr>"
    by (simp add: boundary_table_def get_col_def)
  from create_features_bins_right_closed [of "\<lambda>r. []" boundary_table df' 500] ok c
    create_features_bins_right_closed [of "\<lambda>r. []" boundary_table df' 2]
  show ?thesis by (intro exI [of _ df']) simp
qed

text \<open>
  The claim as stated fails at the inner edges: a cost of exactly 500 is labelled Budget,
  not Moderate, and a rating of exactly 2 is labelled Poor, not Average.
\<close>

theorem create_features_bins_counterexample:
  "create_features (\<lambda>r. []) boundary_table =
     Inr \<lparr>nrows = 2,
          cols = cols boundary_table @
            [\<lparr>cname = ''cost_category'', dtype = Category, cells = [Str ''Budget'', Str ''Moderate'']\<rparr>,
             \<lparr>cname = ''rating_category'', dtype = Category, cells = [Str ''Poor'', Str ''Excellent'']\<rparr>]\<rparr> \<and>
   category_cell COST_BINS COST_LABELS (Num (Fin 500)) \<noteq> Str ''Moderate'' \<and>
   category_cell RATING_BINS RATING_LABELS (Num (Fin 2)) \<noteq> Str ''Average''"
  using boundary_table_features
  by (simp add: category_cell_def COST_BINS_def COST_LABELS_def RATING_BINS_def
      RATING_LABELS_def fle_def)

subsection \<open>Validation\<close>

lemma report_selectors [simp]:
  "failed_checks (add_failed k r) = failed_checks r @ [k]"
  "failed_checks (add_passed k r) = failed_checks r"
  "failed_checks (add_warning k r) = failed_checks r"
  "passed_checks (add_failed k r) = passed_checks r"
  "passed_checks (add_passed k r) = passed_checks r @ [k]"
  "passed_checks (add_warning k r) = passed_checks r"
  "warnings (add_failed k r) = warnings r"
  "warnings (add_passed k r) = warnings r"
  "warnings (add_warning k r) = warnings r @ [k]"
  "failed_checks empty_report = []" "passed_checks empty_report = []" "warnings empty_report = []"
  by (simp_all add: add_failed_def add_passed_def add_warning_def empty_report_def)

lemma validate_data_quality_keys:
  assumes "validate_data_quality df rules_arg = Inr (is_valid, report)"
  shows "\<exists>max_pct min_r required.
           max_missing_percentage (effective_rules rules_arg) = Some max_pct \<and>
           min_rows (effective_rules rules_arg) = Some min_r \<and>
           required_columns (effective_rules rules_arg) = Some required"
  using assms
  by (cases "min_rows (effective_rules rules_arg)";
      cases "required_columns (effective_rules rules_arg)";
      cases "max_missing_percentage (effective_rules rules_arg)")
     (simp_all add: validate_data_quality_def Let_def)

lemma missing_required_empty:
  "(filter (\<lambda>col. get_col df col = None) required = []) = (\<forall>col\<in>set required. get_col df col \<noteq> None)"
  by (simp add: filter_empty_conv)

lemma missing_percentage_cells:
  "missing_percentage df =
     (if nrows df * length (cols df) = 0 then NaN
      else Fin (fl (fl (fl (of_nat (sum_list (map (\<lambda>c. length (filter isna (cells c))) (cols df))))
                        / fl (of_nat (nrows df * length (cols df)))) * 100)))"
  by (simp add: missing_percentage_def isnull_sum_cells)

lemma validate_data_quality_report:
  assumes "validate_data_quality df rules_arg = Inr (is_valid, report)"
    and "max_missing_percentage (effective_rules rules_arg) = Some max_pct"
    and "min_rows (effective_rules rules_arg) = Some min_r"
    and "required_columns (effective_rules rules_arg) = Some required"
  shows "failed_checks report =
           (if int (nrows df) < min_r then [RowCountTooLow (nrows df) min_r] else []) @
           (if filter (\<lambda>col. get_col df col = None) required \<noteq> []
            then [MissingRequiredColumns (filter (\<lambda>col. get_col df col = None) required)]
            else []) \<and>
         warnings report =
           (if flt (Fin max_pct) (missing_percentage df)
            then [HighMissingPercentage (missing_percentage df)] else []) @
           (if filter (\<lambda>c. dtype c = Numeric) (cols df) = [] then [NoNumericColumns] else []) \<and>
         passed_checks report =
           (if int (nrows df) < min_r then [] else [RowCountPassed (nrows df)]) @
           (if filter (\<lambda>col. get_col df col = None) required \<noteq> [] then []
            else [AllRequiredColumnsPresent]) @
           (if flt (Fin max_pct) (missing_percentage df) then []
            else [MissingValueCheckPassed (missing_percentage df)]) \<and>
         is_valid = (failed_checks report = [])"
  using assms
  by (cases "int (nrows df) < min_r";
      cases "filter (\<lambda>col. get_col df col = None) required = []";
      cases "flt (Fin max_pct) (missing_percentage df)";
      cases "filter (\<lambda>c. dtype c = Numeric) (cols df) = []")
     (auto simp: validate_data_quality_def Let_def missing_required_def)

text \<open>
  Claim C6. Whenever \<open>validate_data_quality\<close> returns, the rules in force had all three
  keys, and the report is this. The failed checks are: the row-count failure if the table
  has fewer rows than the minimum, then the required-column failure, naming the required
  columns that the table lacks, if it lacks one; nothing else. The warnings are: the
  missing-percentage warning if the percentage of missing cells (the float
  \<open>missing / total * 100\<close>, \<open>nan\<close> for a table without cells) is above the maximum, then the
  warning that no column is numeric; so a missing-percentage violation is among the
  warnings only. Validity holds exactly when no check failed, that is, exactly when the
  table has the minimum of rows and every required column, whatever the warnings. A table
  with too few rows that has every required column is invalid with exactly one failed
  check, the row-count one.
\<close>

theorem validate_data_quality_classification:
  "validate_data_quality df rules_arg = Inr (is_valid, report) \<longrightarrow>
     (\<exists>max_pct min_r required.
        max_missing_percentage (effective_rules rules_arg) = Some max_pct \<and>
        min_rows (effective_rules rules_arg) = Some min_r \<and>
        required_columns (effective_rules rules_arg) = Some required \<and>
        (let total = nrows df * length (cols df);
             missing = sum_list (map (\<lambda>c. length (filter isna (cells c))) (cols df));
             pct = (if total = 0 then NaN
                    else Fin (fl (fl (fl (of_nat missing) / fl (of_nat total)) * 100)));
             lacking = filter (\<lambda>col. get_col df col = None) required
         in failed_checks report =
              (if int (nrows df) < min_r then [RowCountTooLow (nrows df) min_r] else []) @
              (if lacking \<noteq> [] then [MissingRequiredColumns lacking] else []) \<and>
            warnings report =
              (if flt (Fin max_pct) pct then [HighMissingPercentage pct] else []) @
              (if filter (\<lambda>c. dtype c = Numeric) (cols df) = [] then [NoNumericColumns] else []) \<and>
            passed_checks report =
              (if int (nrows df) < min_r then [] else [RowCountPassed (nrows df)]) @
              (if lacking \<noteq> [] then [] else [AllRequiredColumnsPresent]) @
              (if flt (Fin max_pct) pct then [] else [MissingValueCheckPassed pct]) \<and>
            (is_valid \<longleftrightarrow> failed_checks report = []) \<and>
            (is_valid \<longleftrightarrow>
               min_r \<le> int (nrows df) \<and> (\<forall>col\<in>set required. get_col df col \<noteq> None)) \<and>
            (int (nrows df) < min_r \<and> (\<forall>col\<in>set required. get_col df col \<noteq> None) \<longrightarrow>
               \<not> is_valid \<and> failed_checks report = [RowCountTooLow (nrows df) min_r])))"
proof
  assume ok: "validate_data_quality df rules_arg = Inr (is_valid, report)"
  from validate_data_quality_keys [OF ok] obtain max_pct min_r required where
    r: "max_missing_percentage (effective_rules rules_arg) = Some max_pct"
       "min_rows (effective_rules rules_arg) = Some min_r"
       "required_columns (effective_rules rules_arg) = Some required"
    by blast
  note R = validate_data_quality_report [OF ok r]
  have fe: "failed_checks report = [] \<longleftrightarrow>
              min_r \<le> int (nrows df) \<and> filter (\<lambda>col. get_col df col = None) required = []"
    using R by (simp add: not_less split: if_splits)
  have v: "is_valid \<longleftrightarrow>
             min_r \<le> int (nrows df) \<and> (\<forall>col\<in>set required. get_col df col \<noteq> None)"
    unfolding missing_required_empty [symmetric] using R fe by simp
  have one: "int (nrows df) < min_r \<and> (\<forall>col\<in>set required. get_col df col \<noteq> None) \<longrightarrow>
               \<not> is_valid \<and> failed_checks report = [RowCountTooLow (nrows df) min_r]"
    unfolding missing_required_empty [symmetric] using R by simp
  have "let total = nrows df * length (cols df);
             missing = sum_list (map (\<lambda>c. length (filter isna (cells c))) (cols df));
             pct = (if total = 0 then NaN
                    else Fin (fl (fl (fl (of_nat missing) / fl (of_nat total)) * 100)));
             lacking = filter (\<lambda>col. get_col df col = None) required
         in failed_checks report =
              (if int (nrows df) < min_r then [RowCountTooLow (nrows df) min_r] else []) @
              (if lacking \<noteq> [] then [MissingRequiredColumns lacking] else []) \<and>
            warnings report =
              (if flt (Fin max_pct) pct then [HighMissingPercentage pct] else []) @
              (if filter (\<lambda>c. dtype c = Numeric) (cols df) = [] then [NoNumericColumns] else []) \<and>
            passed_checks report =
              (if int (nrows df) < min_r then [] else [RowCountPassed (nrows df)]) @
              (if lacking \<noteq> [] then [] else [AllRequiredColumnsPresent]) @
              (if flt (Fin max_pct) pct then [] else [MissingValueCheckPassed pct]) \<and>
            (is_valid \<longleftrightarrow> failed_checks report = []) \<and>
            (is_valid \<longleftrightarrow>
               min_r \<le> int (nrows df) \<and> (\<forall>col\<in>set required. get_col df col \<noteq> None)) \<and>
            (int (nrows df) < min_r \<and> (\<forall>col\<in>set required. get_col df col \<noteq> None) \<longrightarrow>
               \<not> is_valid \<and> failed_checks report = [RowCountTooLow (nrows df) min_r])"
    unfolding Let_def missing_percentage_cells [symmetric]
    using R v one by (intro conjI) (simp_all only:)
  with r show "\<exists>max_pct min_r required.
        max_missing_percentage (effective_rules rules_arg) = Some max_pct \<and>
        min_rows (effective_rules rules_arg) = Some min_r \<and>
        required_columns (effective_rules rules_arg) = Some required \<and>
        (let total = nrows df * length (cols df);
             missing = sum_list (map (\<lambda>c. length (filter isna (cells c))) (cols df));
             pct = (if total = 0 then NaN
                    else Fin (fl (fl (fl (of_nat missing) / fl (of_nat total)) * 100)));
             lacking = filter (\<lambda>col. get_col df col = None) required
         in failed_checks report =
              (if int (nrows df) < min_r then [RowCountTooLow (nrows df) min_r] else []) @
              (if lacking \<noteq> [] then [MissingRequiredColumns lacking] else []) \<and>
            warnings report =
              (if flt (Fin max_pct) pct then [HighMissingPercentage pct] else []) @
              (if filter (\<lambda>c. dtype c = Numeric) (cols df) = [] then [NoNumericColumns] else []) \<and>
            passed_checks report =
              (if int (nrows df) < min_r then [] else [RowCountPassed (nrows df)]) @
              (if lacking \<noteq> [] then [] else [AllRequiredColumnsPresent]) @
              (if flt (Fin max_pct) pct then [] else [MissingValueCheckPassed pct]) \<and>
            (is_valid \<longleftrightarrow> failed_checks report = []) \<and>
            (is_valid \<longleftrightarrow>
               min_r \<le> int (nrows df) \<and> (\<forall>col\<in>set required. get_col df col \<noteq> None)) \<and>
            (int (nrows df) < min_r \<and> (\<forall>col\<in>set required. get_col df col \<noteq> None) \<longrightarrow>
               \<not> is_valid \<and> failed_checks report = [RowCountTooLow (nrows df) min_r]))"
    by blast
qed

lemma fifty_rows_validation:
  "validate_data_quality fifty_rows None =
     Inr (False,
          \<lparr>passed_checks = [AllRequiredColumnsPresent, MissingValueCheckPassed (Fin 0)],
           failed_checks = [RowCountTooLow 50 100],
           warnings = []\<rparr>)"
  by code_simp

lemma no_cost_table_validation:
  "validate_data_quality no_cost_table None =
     Inr (False,
          \<lparr>passed_checks = [],
           failed_checks = [RowCountTooLow 2 100,
                            MissingRequiredColumns [''rate_clean'', ''cost_for_two'']],
           warnings = [HighMissingPercentage (Fin 25), NoNumericColumns]\<rparr>)"
  by code_simp

lemma no_cost_table_facts:
  "nrows no_cost_table = 2" "length (cols no_cost_table) = 2"
  "sum_list (map (\<lambda>c. length (filter isna (cells c))) (cols no_cost_table)) = 1"
  "filter (\<lambda>col. get_col no_cost_table col = None) [''name'', ''rate_clean'', ''cost_for_two'']
     = [''rate_clean'', ''cost_for_two'']"
  "fl (fl (fl 1 / fl 4) * 100) = 25"
  by (simp_all add: no_cost_table_def get_col_def) code_simp

theorem validate_data_quality_classification_witness:
  "validate_data_quality no_cost_table None =
     Inr (False,
          \<lparr>passed_checks = [],
           failed_checks = [RowCountTooLow 2 100,
                            MissingRequiredColumns [''rate_clean'', ''cost_for_two'']],
           warnings = [HighMissingPercentage (Fin 25), NoNumericColumns]\<rparr>) \<and>
   nrows no_cost_table = 2 \<and>
   filter (\<lambda>col. get_col no_cost_table col = None) [''name'', ''rate_clean'', ''cost_for_two'']
     = [''rate_clean'', ''cost_for_two''] \<and>
   fl (fl (fl (of_nat (sum_list (map (\<lambda>c. length (filter isna (cells c))) (cols no_cost_table))))
           / fl (of_nat (nrows no_cost_table * length (cols no_cost_table)))) * 100) = 25 \<and>
   validate_data_quality fifty_rows None =
     Inr (False,
          \<lparr>passed_checks = [AllRequiredColumnsPresent, MissingValueCheckPassed (Fin 0)],
           failed_checks = [RowCountTooLow 50 100],
           warnings = []\<rparr>) \<and>
   nrows fifty_rows = 50 \<and>
   filter (\<lambda>col. get_col fifty_rows col = None) [''name'', ''rate_clean'', ''cost_for_two''] = []"
proof -
  have n: "nrows fifty_rows = 50" by (simp add: fifty_rows_def)
  have m: "filter (\<lambda>col. get_col fifty_rows col = None) [''name'', ''rate_clean'', ''cost_for_two'']
             = []"
    by (simp add: fifty_rows_def get_col_def)
  have p: "fl (fl (fl (of_nat (sum_list (map (\<lambda>c. length (filter isna (cells c)))
                                             (cols no_cost_table))))
           / fl (of_nat (nrows no_cost_table * length (cols no_cost_table)))) * 100) = 25"
    by (simp add: no_cost_table_facts)
  from validate_data_quality_classification
         [of no_cost_table None False
             "\<lparr>passed_checks = [],
               failed_checks = [RowCountTooLow 2 100,
                                MissingRequiredColumns [''rate_clean'', ''cost_for_two'']],
               warnings = [HighMissingPercentage (Fin 25), NoNumericColumns]\<rparr>"]
       no_cost_table_validation
  have "\<exists>required. required_columns (effective_rules None) = Some required \<and>
          [RowCountTooLow 2 100, MissingRequiredColumns [''rate_clean'', ''cost_for_two'']] =
            (if int (nrows no_cost_table) < 100 then [RowCountTooLow (nrows no_cost_table) 100]
             else []) @
            (if filter (\<lambda>col. get_col no_cost_table col = None) required \<noteq> []
             then [MissingRequiredColumns (filter (\<lambda>col. get_col no_cost_table col = None) required)]
             else [])"
    by (auto simp: Let_def effective_rules_def default_rules_def)
  hence "filter (\<lambda>col. get_col no_cost_table col = None) [''name'', ''rate_clean'', ''cost_for_two'']
           = [''rate_clean'', ''cost_for_two'']"
    by (simp only: no_cost_table_facts(4))
  with no_cost_table_validation fifty_rows_validation n m p no_cost_table_facts(1)
  show ?thesis by simp
qed

subsection \<open>Text normalisation: \<open>strip\<close> and \<open>title\<close>\<close>



















subsection \<open>Text normalisation of a table\<close>




























subsection \<open>Missing-value imputation\<close>



lemma filled_length: "length (cells (filled c v)) = length (cells c)"
  by (simp add: filled_def)




















lemma imputed_length: "length (cells (imputed kvs d)) = length (cells d)"
  by (simp add: imputed_def filled_length split: option.splits)


lemma cost_column_other [simp]:
  "COST_COLUMN \<noteq> ''rate''" "COST_COLUMN \<noteq> ''cuisines''" "COST_COLUMN \<noteq> ''dish_liked''"
  "''rate'' \<noteq> COST_COLUMN" "''cuisines'' \<noteq> COST_COLUMN" "''dish_liked'' \<noteq> COST_COLUMN"
  by (simp_all add: COST_COLUMN_def)






















subsection \<open>Deduplication\<close>

lemma duplicated_from_length: "length (duplicated_from seen rs) = length rs"
  by (induction rs arbitrary: seen) simp_all

lemma duplicated_from_nth:
  "i < length rs \<Longrightarrow>
   duplicated_from seen rs ! i = (rs ! i \<in> set seen \<union> set (take i rs))"
proof (induction rs arbitrary: seen i)
  case Nil
  then show ?case by simp
next
  case (Cons r rs)
  show ?case
  proof (cases i)
    case 0
    then show ?thesis by simp
  next
    case (Suc j)
    with Cons.prems have "j < length rs" by simp
    from Cons.IH [OF this, of "r # seen"] Suc show ?thesis by auto
  qed
qed

lemma kept_positions_Cons:
  "kept_positions (d # ds) = (if d then [] else [0]) @ map Suc (kept_positions ds)"
proof -
  have "[0..<length (d # ds)] = 0 # map Suc [0..<length ds]"
    by (simp add: upt_conv_Cons map_Suc_upt del: upt_Suc)
  then show ?thesis
    by (simp add: kept_positions_def filter_map comp_def del: upt_Suc)
qed

lemma keep_rows_positions:
  "length marks = length xs \<Longrightarrow> keep_rows marks xs = map (\<lambda>i. xs ! i) (kept_positions marks)"
proof (induction marks arbitrary: xs)
  case Nil
  then show ?case by (simp add: kept_positions_def)
next
  case (Cons d ds)
  then obtain y ys where xs: "xs = y # ys" by (cases xs) auto
  with Cons.prems have "length ds = length ys" by simp
  from Cons.IH [OF this] show ?case by (simp add: xs kept_positions_Cons comp_def)
qed

lemma kept_positions_bound: "i \<in> set (kept_positions marks) \<Longrightarrow> i < length marks"
  by (simp add: kept_positions_def)

lemma kept_positions_length: "length (kept_positions marks) = length (filter Not marks)"
proof (induction marks)
  case Nil
  then show ?case by (simp add: kept_positions_def)
next
  case (Cons d ds)
  then show ?case by (simp add: kept_positions_Cons)
qed

lemma keep_rows_subseq: "subseq (keep_rows marks xs) xs"
  by (induction marks xs rule: keep_rows.induct) (auto intro: subseq_Cons')

lemma keep_rows_first_occurrences:
  "set (keep_rows (duplicated_from seen rs) rs) = set rs - set seen \<and>
   distinct (keep_rows (duplicated_from seen rs) rs)"
  by (induction rs arbitrary: seen) auto

lemma rows_of_length: "length (rows_of df) = nrows df"
  by (simp add: rows_of_def)

lemma rows_of_nth: "i < nrows df \<Longrightarrow> rows_of df ! i = row_at df i"
  by (simp add: rows_of_def)

lemma map_upt_nth: "map (\<lambda>j. f (ks ! j)) [0..<length ks] = map f ks"
  by (rule nth_equalityI) simp_all

lemma kept_positions_duplicated:
  "kept_positions (duplicated_from [] rs) = first_occurrences rs"
  unfolding kept_positions_def first_occurrences_def duplicated_from_length
  by (rule filter_cong) (simp_all add: duplicated_from_nth)

lemma drop_duplicates_unfold:
  assumes "nrows df \<noteq> 0" and "cols df \<noteq> []"
  shows "drop_duplicates df =
           \<lparr>nrows = length (first_occurrences (rows_of df)),
            cols = map (\<lambda>c. c\<lparr>cells := keep_rows (duplicated_from [] (rows_of df)) (cells c)\<rparr>)
                       (cols df)\<rparr>"
  using assms
  by (simp add: drop_duplicates_def Let_def kept_positions_length [symmetric]
      kept_positions_duplicated)

lemma drop_duplicates_cells:
  assumes wf: "wf_table df" and c: "c \<in> set (cols df)"
  shows "keep_rows (duplicated_from [] (rows_of df)) (cells c)
           = map (\<lambda>i. cells c ! i) (first_occurrences (rows_of df))"
proof -
  have "length (duplicated_from [] (rows_of df)) = length (cells c)"
    using wf c by (simp add: duplicated_from_length rows_of_length wf_table_def list_all_iff)
  from keep_rows_positions [OF this] show ?thesis by (simp add: kept_positions_duplicated)
qed

lemma first_occurrences_bound: "i \<in> set (first_occurrences rs) \<Longrightarrow> i < length rs"
  by (simp add: first_occurrences_def)

lemma drop_duplicates_rows:
  assumes wf: "wf_table df" and n: "nrows df \<noteq> 0" and cs: "cols df \<noteq> []"
  shows "rows_of (drop_duplicates df)
           = map (\<lambda>i. rows_of df ! i) (first_occurrences (rows_of df))"
proof -
  define ks where "ks = first_occurrences (rows_of df)"
  have kb: "\<And>j. j < length ks \<Longrightarrow> ks ! j < nrows df"
    using first_occurrences_bound [of _ "rows_of df"] by (simp add: ks_def rows_of_length)
  have cols': "cols (drop_duplicates df) = map (\<lambda>c. c\<lparr>cells := map (\<lambda>i. cells c ! i) ks\<rparr>) (cols df)"
    unfolding drop_duplicates_unfold [OF n cs] ks_def
    using drop_duplicates_cells [OF wf] by (simp cong: map_cong)
  have nrows': "nrows (drop_duplicates df) = length ks"
    unfolding drop_duplicates_unfold [OF n cs] ks_def by simp
  have "rows_of (drop_duplicates df) = map (\<lambda>j. row_at df (ks ! j)) [0..<length ks]"
    unfolding rows_of_def nrows'
    by (rule map_cong [OF refl]) (simp add: row_at_def cols' comp_def)
  also have "\<dots> = map (\<lambda>j. rows_of df ! (ks ! j)) [0..<length ks]"
    by (rule map_cong [OF refl]) (simp add: rows_of_nth kb)
  also have "\<dots> = map (\<lambda>i. rows_of df ! i) ks"
    by (rule map_upt_nth)
  finally show ?thesis by (simp add: ks_def)
qed

lemma drop_duplicates_rows_keep:
  assumes wf: "wf_table df" and n: "nrows df \<noteq> 0" and cs: "cols df \<noteq> []"
  shows "rows_of (drop_duplicates df)
           = keep_rows (duplicated_from [] (rows_of df)) (rows_of df)"
proof -
  have "length (duplicated_from [] (rows_of df)) = length (rows_of df)"
    by (rule duplicated_from_length)
  from keep_rows_positions [OF this] drop_duplicates_rows [OF assms]
  show ?thesis by (simp add: kept_positions_duplicated)
qed

lemma drop_duplicates_wf:
  assumes wf: "wf_table df"
  shows "wf_table (drop_duplicates df)"
proof (cases "nrows df = 0 \<or> cols df = []")
  case True
  then show ?thesis using wf by (simp add: drop_duplicates_def)
next
  case False
  then have n: "nrows df \<noteq> 0" and cs: "cols df \<noteq> []" by simp_all
  have "list_all (\<lambda>c. length (cells c) = length (first_occurrences (rows_of df)))
          (map (\<lambda>c. c\<lparr>cells := keep_rows (duplicated_from [] (rows_of df)) (cells c)\<rparr>) (cols df))"
    using drop_duplicates_cells [OF wf] by (simp add: list_all_iff)
  moreover have "map cname (map (\<lambda>c. c\<lparr>cells := keep_rows (duplicated_from [] (rows_of df)) (cells c)\<rparr>)
                   (cols df)) = map cname (cols df)"
    by simp
  ultimately show ?thesis
    using wf unfolding drop_duplicates_unfold [OF n cs] by (simp add: wf_table_def comp_def)
qed

lemma drop_duplicates_names:
  "map cname (cols (drop_duplicates df)) = map cname (cols df) \<and>
   map dtype (cols (drop_duplicates df)) = map dtype (cols df)"
  by (simp add: drop_duplicates_def Let_def comp_def)

text \<open>
  Claim C8, as the code has it. For a well-formed table with at least one column, the rows
  of the result of \<open>remove_duplicates\<close> are the rows of the input that do not equal an
  earlier row, in their order: they are distinct, every row of the input is among them,
  the columns keep their names and dtypes, and neither the row count nor the column count
  grows.
\<close>

theorem remove_duplicates_keeps_first_occurrences:
  "wf_table df \<and> cols df \<noteq> [] \<longrightarrow>
     rows_of (remove_duplicates df)
       = map (\<lambda>i. rows_of df ! i)
             (filter (\<lambda>i. rows_of df ! i \<notin> set (take i (rows_of df))) [0..<nrows df]) \<and>
     distinct (rows_of (remove_duplicates df)) \<and>
     set (rows_of (remove_duplicates df)) = set (rows_of df) \<and>
     subseq (rows_of (remove_duplicates df)) (rows_of df) \<and>
     map cname (cols (remove_duplicates df)) = map cname (cols df) \<and>
     map dtype (cols (remove_duplicates df)) = map dtype (cols df) \<and>
     nrows (remove_duplicates df) \<le> nrows df \<and>
     length (cols (remove_duplicates df)) \<le> length (cols df) \<and>
     wf_table (remove_duplicates df)"
proof
  assume h: "wf_table df \<and> cols df \<noteq> []"
  then have wf: "wf_table df" and cs: "cols df \<noteq> []" by simp_all
  have rows: "rows_of (drop_duplicates df)
                = keep_rows (duplicated_from [] (rows_of df)) (rows_of df) \<and>
              rows_of (drop_duplicates df)
                = map (\<lambda>i. rows_of df ! i) (first_occurrences (rows_of df))"
  proof (cases "nrows df = 0")
    case True
    then show ?thesis by (simp add: drop_duplicates_def rows_of_def first_occurrences_def)
  next
    case False
    then show ?thesis
      using drop_duplicates_rows [OF wf _ cs] drop_duplicates_rows_keep [OF wf _ cs] by simp
  qed
  have len: "length (rows_of (drop_duplicates df)) \<le> length (rows_of df)"
    using rows keep_rows_subseq [of "duplicated_from [] (rows_of df)" "rows_of df"]
    by (simp add: list_emb_length del: rows_of_length)
  have names: "map cname (cols (drop_duplicates df)) = map cname (cols df)"
    using drop_duplicates_names by blast
  have "length (map cname (cols (drop_duplicates df))) = length (map cname (cols df))"
    by (simp only: names)
  then have lc: "length (cols (drop_duplicates df)) = length (cols df)" by simp
  have e1: "rows_of (drop_duplicates df)
              = keep_rows (duplicated_from [] (rows_of df)) (rows_of df)"
    using rows by blast
  have e2: "rows_of (drop_duplicates df)
       = map (\<lambda>i. rows_of df ! i)
             (filter (\<lambda>i. rows_of df ! i \<notin> set (take i (rows_of df))) [0..<nrows df])"
  proof -
    from rows have "rows_of (drop_duplicates df)
                = map (\<lambda>i. rows_of df ! i) (first_occurrences (rows_of df))" by blast
    then show ?thesis unfolding first_occurrences_def rows_of_length .
  qed
  have d: "distinct (rows_of (drop_duplicates df))"
    and s: "set (rows_of (drop_duplicates df)) = set (rows_of df)"
    unfolding e1 using keep_rows_first_occurrences [of "[]" "rows_of df"] by simp_all
  have sub: "subseq (rows_of (drop_duplicates df)) (rows_of df)"
    unfolding e1 by (rule keep_rows_subseq)
  have n: "nrows (drop_duplicates df) \<le> nrows df"
    using len by (simp only: rows_of_length)
  have dt: "map dtype (cols (drop_duplicates df)) = map dtype (cols df)"
    using drop_duplicates_names by blast
  have l: "length (cols (drop_duplicates df)) \<le> length (cols df)" using lc by simp
  have w: "wf_table (drop_duplicates df)" using wf by (rule drop_duplicates_wf)
  show "rows_of (remove_duplicates df)
       = map (\<lambda>i. rows_of df ! i)
             (filter (\<lambda>i. rows_of df ! i \<notin> set (take i (rows_of df))) [0..<nrows df]) \<and>
     distinct (rows_of (remove_duplicates df)) \<and>
     set (rows_of (remove_duplicates df)) = set (rows_of df) \<and>
     subseq (rows_of (remove_duplicates df)) (rows_of df) \<and>
     map cname (cols (remove_duplicates df)) = map cname (cols df) \<and>
     map dtype (cols (remove_duplicates df)) = map dtype (cols df) \<and>
     nrows (remove_duplicates df) \<le> nrows df \<and>
     length (cols (remove_duplicates df)) \<le> length (cols df) \<and>
     wf_table (remove_duplicates df)"
    unfolding remove_duplicates_def
    using e2 d s sub names dt n l w by blast
qed

lemma repeated_rows_result:
  "remove_duplicates repeated_rows =
     \<lparr>nrows = 3,
      cols = [\<lparr>cname = ''name'', dtype = Object, cells = [Str ''Cafe A'', Str ''Cafe B'', Num NaN]\<rparr>,
              \<lparr>cname = ''votes'', dtype = Numeric, cells = [Num (Fin 10), Num NaN, Num NaN]\<rparr>]\<rparr>"
  by code_simp

theorem remove_duplicates_keeps_first_occurrences_witness:
  "wf_table repeated_rows \<and> cols repeated_rows \<noteq> [] \<and>
   remove_duplicates repeated_rows =
     \<lparr>nrows = 3,
      cols = [\<lparr>cname = ''name'', dtype = Object, cells = [Str ''Cafe A'', Str ''Cafe B'', Num NaN]\<rparr>,
              \<lparr>cname = ''votes'', dtype = Numeric, cells = [Num (Fin 10), Num NaN, Num NaN]\<rparr>]\<rparr> \<and>
   distinct (rows_of (remove_duplicates repeated_rows)) \<and>
   set (rows_of (remove_duplicates repeated_rows)) = set (rows_of repeated_rows) \<and>
   nrows (remove_duplicates repeated_rows) \<le> nrows repeated_rows"
proof -
  have w: "wf_table repeated_rows \<and> cols repeated_rows \<noteq> []"
    by (simp add: repeated_rows_def wf_table_def)
  from remove_duplicates_keeps_first_occurrences [of repeated_rows] w
  have "distinct (rows_of (remove_duplicates repeated_rows)) \<and>
        set (rows_of (remove_duplicates repeated_rows)) = set (rows_of repeated_rows) \<and>
        nrows (remove_duplicates repeated_rows) \<le> nrows repeated_rows"
    by blast
  with w repeated_rows_result show ?thesis by blast
qed

text \<open>
  The claim as stated fails on a table without columns: \<open>drop_duplicates\<close> returns an empty
  frame as it is, so both of its (equal) rows stay.
\<close>

theorem remove_duplicates_no_columns_counterexample:
  "wf_table two_rows_no_columns \<and>
   rows_of two_rows_no_columns = [[], []] \<and>
   remove_duplicates two_rows_no_columns = two_rows_no_columns \<and>
   nrows (remove_duplicates two_rows_no_columns) = 2"
  by (simp add: two_rows_no_columns_def wf_table_def rows_of_def row_at_def
      remove_duplicates_def drop_duplicates_def upt_rec)

subsection \<open>Type coercion: ratings and costs\<close>































lemma cost_column_not_derived [simp]:
  "COST_COLUMN \<noteq> ''rate_clean''" "COST_COLUMN \<noteq> ''cost_for_two''"
  by (simp_all add: COST_COLUMN_def)








subsection \<open>Outlier clipping\<close>

text \<open>The interpolation between two sorted neighbours, by the kind of the neighbours.\<close>

lemma lerp_finite:
  "lerp (Fin x) (Fin y) t = Fin (x + t * (y - x))"
  by (simp add: lerp_def fsub_def algebra_simps)





lemma lerp_from_NInf:
  assumes "b \<noteq> NaN" and "0 \<le> t" and "t < 1"
  shows "lerp NInf b t = NInf \<or> lerp NInf b t = NaN"
  using assms by (cases b) (simp_all add: lerp_def fsub_def)






lemma fkey_bottom: "fkey x \<le> fkey NInf \<Longrightarrow> x = NInf"
  by (cases x) simp_all

lemma fkey_Fin: "fkey (Fin x) \<le> fkey (Fin y) \<longleftrightarrow> x \<le> y"
  by simp



lemma lerp_mono:
  fixes x y s t :: rat
  assumes "x \<le> y" and "s \<le> t"
  shows "x + s * (y - x) \<le> x + t * (y - x)"
  using assms by (simp add: mult_right_mono)

















lemma cname_update_same: "cname c = n \<Longrightarrow> c\<lparr>cname := n\<rparr> = c"
  by simp

lemma cname_clip: "cname (clip c lower upper) = cname c"
  by (simp add: clip_def)


lemma outliers_loop_skip:
  assumes "get_col df col = None"
  shows "outliers_loop (col # rest) df report = outliers_loop rest df report"
  using assms by simp











lemma clip_cell_above: "flt upper v \<Longrightarrow> clip_cell lower upper (Num v) = Num upper"
  by simp

lemma clip_cell_within:
  "\<not> flt v lower \<Longrightarrow> \<not> flt upper v \<Longrightarrow> clip_cell lower upper (Num v) = Num v"
  by simp








subsection \<open>The operations leave their input as it was\<close>

lemma in_place_refl: "in_place h r h"
  by (simp add: in_place_def)

lemma in_place_trans: "in_place h r h1 \<Longrightarrow> in_place h1 r h2 \<Longrightarrow> in_place h r h2"
  by (simp add: in_place_def)

lemma in_place_setitem: "in_place h r (df_setitem h r n c)"
  by (simp add: in_place_def df_setitem_def)

lemma df_setitem_nth: "r < length h \<Longrightarrow> df_setitem h r n c ! r = set_col (h ! r) n c"
  by (simp add: df_setitem_def)

lemma df_setitem_length: "length (df_setitem h r n c) = length h"
  by (simp add: df_setitem_def)

lemma unchanged_refl: "unchanged h h"
  by (simp add: unchanged_def)

lemma unchanged_trans: "unchanged h h1 \<Longrightarrow> unchanged h1 h2 \<Longrightarrow> unchanged h h2"
  by (simp add: unchanged_def)

lemma unchanged_append: "unchanged h (h @ ts)"
  by (simp add: unchanged_def nth_append)

lemma unchanged_in_place:
  assumes "unchanged h h1" and "in_place h1 r h2" and "length h \<le> r"
  shows "unchanged h h2"
  using assms by (auto simp: unchanged_def in_place_def)

text \<open>The loops and steps on a frame of the store, against the same loops and steps on its
  content.\<close>

lemma impute_st_in_place: "in_place h r (fst (impute_st s h r))"
proof (induction s arbitrary: h)
  case Nil
  show ?case by (simp add: in_place_refl)
next
  case (Cons a s)
  obtain column strategy where a: "a = (column, strategy)"
    by (cases a)
  show ?case
  proof (cases "get_col (h ! r) column")
    case None
    thus ?thesis using Cons.IH [of h] by (simp add: a)
  next
    case (Some c)
    show ?thesis
    proof (cases "fillna c strategy")
      case (Inl e)
      thus ?thesis using Some by (simp add: a in_place_refl)
    next
      case (Inr c')
      have "in_place h r (fst (impute_st s (df_setitem h r column c') r))"
        using in_place_setitem Cons.IH by (rule in_place_trans)
      thus ?thesis using Some Inr by (simp add: a)
    qed
  qed
qed

lemma impute_st_result:
  assumes "r < length h"
  shows "impute s (h ! r) =
           (case snd (impute_st s h r) of
              Inl e \<Rightarrow> Inl e
            | Inr u \<Rightarrow> Inr (fst (impute_st s h r) ! r))"
  using assms
proof (induction s arbitrary: h)
  case Nil
  show ?case by simp
next
  case (Cons a s)
  obtain column strategy where a: "a = (column, strategy)"
    by (cases a)
  show ?case
  proof (cases "get_col (h ! r) column")
    case None
    thus ?thesis using Cons.IH [OF Cons.prems] by (simp add: a cong: sum.case_cong)
  next
    case (Some c)
    show ?thesis
    proof (cases "fillna c strategy")
      case (Inl e)
      thus ?thesis using Some by (simp add: a)
    next
      case (Inr c')
      have "r < length (df_setitem h r column c')"
        using Cons.prems by (simp add: df_setitem_length)
      from Cons.IH [OF this] show ?thesis
        using Some Inr Cons.prems by (simp add: a df_setitem_nth cong: sum.case_cong)
    qed
  qed
qed

lemma standardize_loop_st_in_place: "in_place h r (standardize_loop_st repr cs h r)"
proof (induction cs arbitrary: h)
  case Nil
  show ?case by (simp add: in_place_refl)
next
  case (Cons column cs)
  show ?case
  proof (cases "get_col (h ! r) column")
    case None
    thus ?thesis using Cons.IH [of h] by simp
  next
    case (Some c)
    have "in_place h r
            (standardize_loop_st repr cs (df_setitem h r column (standardize_column repr c)) r)"
      using in_place_setitem Cons.IH by (rule in_place_trans)
    thus ?thesis using Some by simp
  qed
qed

lemma standardize_loop_st_result:
  assumes "r < length h"
  shows "standardize_loop_st repr cs h r ! r = standardize_loop repr cs (h ! r)"
  using assms
proof (induction cs arbitrary: h)
  case Nil
  show ?case by simp
next
  case (Cons column cs)
  show ?case
  proof (cases "get_col (h ! r) column")
    case None
    thus ?thesis using Cons.IH [OF Cons.prems] by simp
  next
    case (Some c)
    have "r < length (df_setitem h r column (standardize_column repr c))"
      using Cons.prems by (simp add: df_setitem_length)
    from Cons.IH [OF this] show ?thesis
      using Some Cons.prems by (simp add: df_setitem_nth)
  qed
qed

lemma outliers_loop_st_in_place: "in_place h r (fst (outliers_loop_st cs h r report))"
proof (induction cs arbitrary: h report)
  case Nil
  show ?case by (simp add: in_place_refl)
next
  case (Cons col cs)
  show ?case
  proof (cases "get_col (h ! r) col")
    case None
    thus ?thesis using Cons.IH [of h report] by simp
  next
    case (Some c)
    show ?thesis
    proof (cases "quantile c (1 / 4)")
      case (Inl e)
      thus ?thesis using Some by (simp add: in_place_refl)
    next
      case Q1: (Inr Q1)
      show ?thesis
      proof (cases "quantile c (3 / 4)")
        case (Inl e)
        thus ?thesis using Some Q1 by (simp add: in_place_refl)
      next
        case Q3: (Inr Q3)
        have "in_place h r
                (fst (outliers_loop_st cs
                        (df_setitem h r col (clip c (lower_bound Q1 Q3) (upper_bound Q1 Q3))) r
                        (report @ [(col, length (filter (is_outlier (lower_bound Q1 Q3)
                                                          (upper_bound Q1 Q3)) (cells c)))])))"
          using in_place_setitem Cons.IH by (rule in_place_trans)
        thus ?thesis using Some Q1 Q3 by (simp add: Let_def)
      qed
    qed
  qed
qed

lemma outliers_loop_st_result:
  assumes "r < length h"
  shows "outliers_loop cs (h ! r) report =
           (case snd (outliers_loop_st cs h r report) of
              Inl e \<Rightarrow> Inl e
            | Inr report' \<Rightarrow> Inr (fst (outliers_loop_st cs h r report) ! r, report'))"
  using assms
proof (induction cs arbitrary: h report)
  case Nil
  show ?case by simp
next
  case (Cons col cs)
  show ?case
  proof (cases "get_col (h ! r) col")
    case None
    thus ?thesis using Cons.IH [OF Cons.prems, of report] by (simp cong: sum.case_cong)
  next
    case (Some c)
    show ?thesis
    proof (cases "quantile c (1 / 4)")
      case (Inl e)
      thus ?thesis using Some by simp
    next
      case Q1: (Inr Q1)
      show ?thesis
      proof (cases "quantile c (3 / 4)")
        case (Inl e)
        thus ?thesis using Some Q1 by simp
      next
        case Q3: (Inr Q3)
        define h1 where
          "h1 = df_setitem h r col (clip c (lower_bound Q1 Q3) (upper_bound Q1 Q3))"
        have "r < length h1"
          using Cons.prems by (simp add: h1_def df_setitem_length)
        from Cons.IH [OF this] show ?thesis
          using Some Q1 Q3 Cons.prems
          by (simp add: Let_def h1_def df_setitem_nth cong: sum.case_cong)
      qed
    qed
  qed
qed

lemma add_rate_clean_st_in_place: "in_place h r (fst (add_rate_clean_st h r))"
  by (simp add: add_rate_clean_st_def in_place_refl in_place_setitem
      split: option.splits sum.splits)

lemma add_rate_clean_st_result:
  assumes "r < length h"
  shows "add_rate_clean (h ! r) =
           (case snd (add_rate_clean_st h r) of
              Inl e \<Rightarrow> Inl e
            | Inr u \<Rightarrow> Inr (fst (add_rate_clean_st h r) ! r))"
  using assms
  by (simp add: add_rate_clean_st_def add_rate_clean_def df_setitem_nth
      split: option.splits sum.splits)

lemma add_cost_for_two_st_in_place: "in_place h r (add_cost_for_two_st h r)"
  by (simp add: add_cost_for_two_st_def in_place_refl in_place_setitem split: option.splits)

lemma add_cost_for_two_st_result:
  "r < length h \<Longrightarrow> add_cost_for_two_st h r ! r = add_cost_for_two (h ! r)"
  by (simp add: add_cost_for_two_st_def add_cost_for_two_def df_setitem_nth
      split: option.splits)

lemma add_num_cuisines_st_in_place: "in_place h r (add_num_cuisines_st repr h r)"
  by (simp add: add_num_cuisines_st_def in_place_refl in_place_setitem split: option.splits)

lemma add_num_cuisines_st_result:
  "r < length h \<Longrightarrow> add_num_cuisines_st repr h r ! r = add_num_cuisines repr (h ! r)"
  by (simp add: add_num_cuisines_st_def add_num_cuisines_def df_setitem_nth
      split: option.splits)

lemma add_category_st_in_place:
  "in_place h r (fst (add_category_st source target bins labels h r))"
  by (simp add: add_category_st_def in_place_refl in_place_setitem
      split: option.splits sum.splits)

lemma add_category_st_result:
  assumes "r < length h"
  shows "add_category source target bins labels (h ! r) =
           (case snd (add_category_st source target bins labels h r) of
              Inl e \<Rightarrow> Inl e
            | Inr u \<Rightarrow> Inr (fst (add_category_st source target bins labels h r) ! r))"
  using assms
  by (simp add: add_category_st_def add_category_def df_setitem_nth
      split: option.splits sum.splits)

text \<open>A fresh frame appended to the store, then changed in place.\<close>

lemma fresh_then_in_place:
  assumes "in_place (h @ [t]) (length h) h'"
  shows "unchanged h h'" and "length h < length h'"
  using assms by (auto simp: unchanged_def in_place_def nth_append)

lemma handle_missing_values_st_tail:
  assumes u: "unchanged h h2" and r2: "length h \<le> r2" "r2 < length h2"
  defines "m \<equiv>
    (case get_col (h2 ! r2) COST_COLUMN of
       None \<Rightarrow> (h2, Inl (KeyError COST_COLUMN))
     | Some cost \<Rightarrow>
         (case median cost of
            Inl e \<Rightarrow> (h2, Inl e)
          | Inr mm \<Rightarrow>
              (let (h3, r) = impute_st (imputation_strategy mm) h2 r2
               in (h3, case r of Inl e \<Rightarrow> Inl e | Inr u \<Rightarrow> Inr r2))))"
  shows "unchanged h (fst m) \<and>
         returns_new h m
           (case get_col (h2 ! r2) COST_COLUMN of
              None \<Rightarrow> Inl (KeyError COST_COLUMN)
            | Some cost \<Rightarrow>
                (case median cost of
                   Inl e \<Rightarrow> Inl e
                 | Inr mm \<Rightarrow> impute (imputation_strategy mm) (h2 ! r2)))"
proof (cases "get_col (h2 ! r2) COST_COLUMN")
  case None
  thus ?thesis using u by (simp add: m_def returns_new_def)
next
  case (Some cost)
  show ?thesis
  proof (cases "median cost")
    case (Inl e)
    thus ?thesis using u Some by (simp add: m_def returns_new_def)
  next
    case (Inr mm)
    obtain h3 r where st: "impute_st (imputation_strategy mm) h2 r2 = (h3, r)"
      by (cases "impute_st (imputation_strategy mm) h2 r2")
    have ip: "in_place h2 r2 h3"
      using impute_st_in_place [of h2 r2 "imputation_strategy mm"] by (simp add: st)
    have res: "impute (imputation_strategy mm) (h2 ! r2) =
                 (case r of Inl e \<Rightarrow> Inl e | Inr u \<Rightarrow> Inr (h3 ! r2))"
      using impute_st_result [OF r2(2), of "imputation_strategy mm"]
      by (simp only: st fst_conv snd_conv)
    have m: "m = (h3, case r of Inl e \<Rightarrow> Inl e | Inr u \<Rightarrow> Inr r2)"
      by (simp add: m_def Some Inr st)
    have "unchanged h h3"
      by (rule unchanged_in_place [OF u ip r2(1)])
    moreover have "length h3 = length h2"
      using ip by (simp add: in_place_def)
    ultimately show ?thesis
      using r2 by (cases r) (simp_all add: m returns_new_def Some Inr res)
  qed
qed

lemma handle_missing_values_st_frame:
  "unchanged h (fst (handle_missing_values_st h df)) \<and>
   returns_new h (handle_missing_values_st h df) (handle_missing_values (h ! df))"
proof (cases "columns_to_drop (h ! df) = []")
  case True
  have u: "unchanged h (h @ [h ! df])"
    by (rule unchanged_append)
  have a: "after_drop (h ! df) = h ! df"
    by (simp add: after_drop_def True)
  from handle_missing_values_st_tail [OF u, of "length h"] show ?thesis
    by (simp add: handle_missing_values_st_def handle_missing_values_def df_copy_def True a
        Let_def cong: option.case_cong sum.case_cong)
next
  case False
  let ?t = "drop_columns (h ! df) (columns_to_drop (h ! df))"
  have u: "unchanged h ((h @ [h ! df]) @ [?t])"
    by (simp add: unchanged_def nth_append)
  have a: "after_drop (h ! df) = ?t"
    by (simp add: after_drop_def False)
  have n: "((h @ [h ! df]) @ [?t]) ! Suc (length h) = ?t"
    by (simp add: nth_append)
  from handle_missing_values_st_tail [OF u, of "Suc (length h)"] show ?thesis
    unfolding n
    by (simp add: handle_missing_values_st_def handle_missing_values_def df_copy_def
        df_drop_def False a nth_append Let_def cong: option.case_cong sum.case_cong)
qed

lemma remove_duplicates_st_frame:
  "unchanged h (fst (remove_duplicates_st h df)) \<and>
   returns_new h (remove_duplicates_st h df) (Inr (remove_duplicates (h ! df)))"
  by (simp add: remove_duplicates_st_def df_drop_duplicates_def returns_new_def
      remove_duplicates_def unchanged_append)

lemma standardize_text_columns_st_frame:
  "unchanged h (fst (standardize_text_columns_st repr h df)) \<and>
   returns_new h (standardize_text_columns_st repr h df)
     (Inr (standardize_text_columns repr (h ! df)))"
proof -
  let ?h' = "standardize_loop_st repr TEXT_COLUMNS (h @ [h ! df]) (length h)"
  have ip: "in_place (h @ [h ! df]) (length h) ?h'"
    by (rule standardize_loop_st_in_place)
  have "?h' ! length h = standardize_loop repr TEXT_COLUMNS ((h @ [h ! df]) ! length h)"
    by (rule standardize_loop_st_result) simp
  thus ?thesis
    using fresh_then_in_place [OF ip]
    by (simp add: standardize_text_columns_st_def df_copy_def returns_new_def
        standardize_text_columns_def)
qed

lemma correct_data_types_st_frame:
  "unchanged h (fst (correct_data_types_st h df)) \<and>
   returns_new h (correct_data_types_st h df) (correct_data_types (h ! df))"
proof -
  let ?h1 = "h @ [h ! df]"
  obtain h2 r where st: "add_rate_clean_st ?h1 (length h) = (h2, r)"
    by (cases "add_rate_clean_st ?h1 (length h)")
  have ip: "in_place ?h1 (length h) h2"
    using add_rate_clean_st_in_place [of ?h1 "length h"] by (simp add: st)
  have res: "add_rate_clean (h ! df) = (case r of Inl e \<Rightarrow> Inl e | Inr u \<Rightarrow> Inr (h2 ! length h))"
    using add_rate_clean_st_result [of "length h" ?h1]
    by (simp only: st fst_conv snd_conv nth_append_length length_append_singleton lessI)
  have len: "length h < length h2"
    by (rule fresh_then_in_place(2) [OF ip])
  show ?thesis
  proof (cases r)
    case (Inl e)
    thus ?thesis
      using fresh_then_in_place(1) [OF ip] res
      by (simp add: correct_data_types_st_def df_copy_def st returns_new_def
          correct_data_types_def)
  next
    case (Inr u)
    let ?h3 = "add_cost_for_two_st h2 (length h)"
    have ip3: "in_place ?h1 (length h) ?h3"
      using ip add_cost_for_two_st_in_place by (rule in_place_trans)
    have "?h3 ! length h = add_cost_for_two (h2 ! length h)"
      by (rule add_cost_for_two_st_result [OF len])
    thus ?thesis
      using fresh_then_in_place [OF ip3] res Inr
      by (simp add: correct_data_types_st_def df_copy_def st returns_new_def
          correct_data_types_def)
  qed
qed

lemma handle_outliers_st_frame:
  "unchanged h (fst (handle_outliers_st h df)) \<and>
   returns_new h (handle_outliers_st h df)
     (case handle_outliers (h ! df) of Inl e \<Rightarrow> Inl e | Inr (t, report) \<Rightarrow> Inr t)"
proof -
  let ?h1 = "h @ [h ! df]"
  let ?cs = "[''rate_clean'', ''cost_for_two'']"
  obtain h2 r where st: "outliers_loop_st ?cs ?h1 (length h) [] = (h2, r)"
    by (cases "outliers_loop_st ?cs ?h1 (length h) []")
  have ip: "in_place ?h1 (length h) h2"
    using outliers_loop_st_in_place [of ?h1 "length h" ?cs "[]"] by (simp only: st fst_conv)
  have "outliers_loop ?cs (?h1 ! length h) [] =
          (case snd (outliers_loop_st ?cs ?h1 (length h) []) of
             Inl e \<Rightarrow> Inl e
           | Inr report' \<Rightarrow> Inr (fst (outliers_loop_st ?cs ?h1 (length h) []) ! length h, report'))"
    by (rule outliers_loop_st_result) simp
  hence res: "handle_outliers (h ! df) =
                (case r of Inl e \<Rightarrow> Inl e | Inr report' \<Rightarrow> Inr (h2 ! length h, report'))"
    by (simp only: st fst_conv snd_conv handle_outliers_def nth_append_length)
  have m: "handle_outliers_st h df = (h2, case r of Inl e \<Rightarrow> Inl e | Inr rep \<Rightarrow> Inr (length h))"
    using st by (simp only: handle_outliers_st_def df_copy_def Let_def prod.case)
  show ?thesis
    unfolding m res using fresh_then_in_place [OF ip]
    by (cases r) (simp_all add: returns_new_def)
qed

lemma create_features_st_frame:
  "unchanged h (fst (create_features_st repr h df)) \<and>
   returns_new h (create_features_st repr h df) (create_features repr (h ! df))"
proof -
  let ?h1 = "h @ [h ! df]"
  let ?h2 = "add_num_cuisines_st repr ?h1 (length h)"
  have ip2: "in_place ?h1 (length h) ?h2"
    by (rule add_num_cuisines_st_in_place)
  have len2: "length h < length ?h2"
    by (rule fresh_then_in_place(2) [OF ip2])
  have t2: "?h2 ! length h = add_num_cuisines repr (h ! df)"
    using add_num_cuisines_st_result [of "length h" ?h1 repr] by simp
  obtain h3 r where st3: "add_category_st ''cost_for_two'' ''cost_category'' COST_BINS
                            COST_LABELS ?h2 (length h) = (h3, r)"
    by (cases "add_category_st ''cost_for_two'' ''cost_category'' COST_BINS
                 COST_LABELS ?h2 (length h)")
  have ip3: "in_place ?h1 (length h) h3"
    using add_category_st_in_place
            [of ?h2 "length h" "''cost_for_two''" "''cost_category''" COST_BINS COST_LABELS]
          ip2
    by (simp only: st3 fst_conv) (rule in_place_trans)
  have len3: "length h < length h3"
    by (rule fresh_then_in_place(2) [OF ip3])
  have res3: "add_category ''cost_for_two'' ''cost_category'' COST_BINS COST_LABELS
                (add_num_cuisines repr (h ! df))
              = (case r of Inl e \<Rightarrow> Inl e | Inr u \<Rightarrow> Inr (h3 ! length h))"
    using add_category_st_result
            [OF len2, of "''cost_for_two''" "''cost_category''" COST_BINS COST_LABELS]
    by (simp only: st3 fst_conv snd_conv t2)
  show ?thesis
  proof (cases r)
    case (Inl e)
    have m: "create_features_st repr h df = (h3, Inl e)"
      using st3 Inl by (simp add: create_features_st_def df_copy_def Let_def)
    show ?thesis
      unfolding m using fresh_then_in_place(1) [OF ip3] res3 Inl
      by (simp add: returns_new_def create_features_def)
  next
    case (Inr u)
    obtain h4 r' where st4: "add_category_st ''rate_clean'' ''rating_category'' RATING_BINS
                               RATING_LABELS h3 (length h) = (h4, r')"
      by (cases "add_category_st ''rate_clean'' ''rating_category'' RATING_BINS
                   RATING_LABELS h3 (length h)")
    have ip4: "in_place ?h1 (length h) h4"
      using add_category_st_in_place
              [of h3 "length h" "''rate_clean''" "''rating_category''" RATING_BINS RATING_LABELS]
            ip3
      by (simp only: st4 fst_conv) (rule in_place_trans)
    have res4: "add_category ''rate_clean'' ''rating_category'' RATING_BINS RATING_LABELS
                  (h3 ! length h)
                = (case r' of Inl e \<Rightarrow> Inl e | Inr u \<Rightarrow> Inr (h4 ! length h))"
      using add_category_st_result
              [OF len3, of "''rate_clean''" "''rating_category''" RATING_BINS RATING_LABELS]
      by (simp only: st4 fst_conv snd_conv)
    have m: "create_features_st repr h df
               = (h4, case r' of Inl e \<Rightarrow> Inl e | Inr u \<Rightarrow> Inr (length h))"
      using st3 st4 Inr by (simp add: create_features_st_def df_copy_def Let_def)
    have pure: "create_features repr (h ! df)
                  = (case r' of Inl e \<Rightarrow> Inl e | Inr u \<Rightarrow> Inr (h4 ! length h))"
      using res3 res4 Inr by (simp add: create_features_def)
    show ?thesis
      unfolding m pure using fresh_then_in_place [OF ip4]
      by (cases r') (simp_all add: returns_new_def)
  qed
qed

lemma then_st_unchanged:
  assumes "unchanged h (fst m)" and "\<And>h1 df. unchanged h1 (fst (f h1 df))"
  shows "unchanged h (fst (then_st m f))"
proof (cases "snd m")
  case (Inl e)
  thus ?thesis using assms(1) by (simp add: then_st_def)
next
  case (Inr df)
  have "unchanged h (fst (f (fst m) df))"
    using assms(1) assms(2) by (rule unchanged_trans)
  thus ?thesis using Inr by (simp add: then_st_def)
qed

lemma run_pipeline_st_frame: "unchanged h (fst (run_pipeline_st repr h original_df))"
  unfolding run_pipeline_st_def
  by (intro then_st_unchanged)
     (simp_all add: handle_missing_values_st_frame remove_duplicates_st_frame
        standardize_text_columns_st_frame correct_data_types_st_frame
        handle_outliers_st_frame create_features_st_frame)

text \<open>
  Claim C10. For a reference \<open>df\<close> to a frame of the store, each of the six operations
  leaves every frame that existed before the call as it was (the frame \<open>df\<close> among them),
  also when it raises; when it returns, it returns a reference to a frame that did not
  exist before, whose content is what the operation computes from the content of \<open>df\<close>.
  The cleaning and feature steps of \<open>run_pipeline\<close>, run one after the other, likewise
  leave every frame that existed before as it was, the loaded \<open>original_df\<close> among them.
\<close>

theorem operations_leave_input_unchanged:
  "df < length h \<longrightarrow>
     unchanged h (fst (handle_missing_values_st h df)) \<and>
     returns_new h (handle_missing_values_st h df) (handle_missing_values (h ! df)) \<and>
     unchanged h (fst (remove_duplicates_st h df)) \<and>
     returns_new h (remove_duplicates_st h df) (Inr (remove_duplicates (h ! df))) \<and>
     unchanged h (fst (standardize_text_columns_st repr h df)) \<and>
     returns_new h (standardize_text_columns_st repr h df)
       (Inr (standardize_text_columns repr (h ! df))) \<and>
     unchanged h (fst (correct_data_types_st h df)) \<and>
     returns_new h (correct_data_types_st h df) (correct_data_types (h ! df)) \<and>
     unchanged h (fst (handle_outliers_st h df)) \<and>
     returns_new h (handle_outliers_st h df)
       (case handle_outliers (h ! df) of Inl e \<Rightarrow> Inl e | Inr (t, report) \<Rightarrow> Inr t) \<and>
     unchanged h (fst (create_features_st repr h df)) \<and>
     returns_new h (create_features_st repr h df) (create_features repr (h ! df)) \<and>
     unchanged h (fst (run_pipeline_st repr h df)) \<and>
     fst (run_pipeline_st repr h df) ! df = h ! df"
proof
  assume df: "df < length h"
  have "fst (run_pipeline_st repr h df) ! df = h ! df"
    using run_pipeline_st_frame [of h repr df] df by (simp add: unchanged_def)
  thus "unchanged h (fst (handle_missing_values_st h df)) \<and>
     returns_new h (handle_missing_values_st h df) (handle_missing_values (h ! df)) \<and>
     unchanged h (fst (remove_duplicates_st h df)) \<and>
     returns_new h (remove_duplicates_st h df) (Inr (remove_duplicates (h ! df))) \<and>
     unchanged h (fst (standardize_text_columns_st repr h df)) \<and>
     returns_new h (standardize_text_columns_st repr h df)
       (Inr (standardize_text_columns repr (h ! df))) \<and>
     unchanged h (fst (correct_data_types_st h df)) \<and>
     returns_new h (correct_data_types_st h df) (correct_data_types (h ! df)) \<and>
     unchanged h (fst (handle_outliers_st h df)) \<and>
     returns_new h (handle_outliers_st h df)
       (case handle_outliers (h ! df) of Inl e \<Rightarrow> Inl e | Inr (t, report) \<Rightarrow> Inr t) \<and>
     unchanged h (fst (create_features_st repr h df)) \<and>
     returns_new h (create_features_st repr h df) (create_features repr (h ! df)) \<and>
     unchanged h (fst (run_pipeline_st repr h df)) \<and>
     fst (run_pipeline_st repr h df) ! df = h ! df"
    using handle_missing_values_st_frame [of h df] remove_duplicates_st_frame [of h df]
      standardize_text_columns_st_frame [of h repr df] correct_data_types_st_frame [of h df]
      handle_outliers_st_frame [of h df] create_features_st_frame [of h repr df]
      run_pipeline_st_frame [of h repr df]
    by blast
qed

lemma cost_sample_handled:
  "handle_missing_values_st [cost_sample] 0 = ([cost_sample, cost_sample_imputed], Inr 1)"
  by code_simp

lemma cost_sample_pipeline: "snd (run_pipeline_st (\<lambda>r. []) [cost_sample] 0) = Inr 6"
  by code_simp

theorem operations_leave_input_unchanged_witness:
  "0 < length [cost_sample] \<and>
   handle_missing_values_st [cost_sample] 0 = ([cost_sample, cost_sample_imputed], Inr 1) \<and>
   handle_missing_values cost_sample = Inr cost_sample_imputed \<and>
   snd (run_pipeline_st (\<lambda>r. []) [cost_sample] 0) = Inr 6 \<and>
   fst (run_pipeline_st (\<lambda>r. []) [cost_sample] 0) ! 0 = cost_sample"
proof -
  from operations_leave_input_unchanged [of 0 "[cost_sample]" "\<lambda>r. []"]
  have r: "returns_new [cost_sample] (handle_missing_values_st [cost_sample] 0)
             (handle_missing_values ([cost_sample] ! 0))"
    and p: "fst (run_pipeline_st (\<lambda>r. []) [cost_sample] 0) ! 0 = [cost_sample] ! 0"
    by simp_all
  from r have "handle_missing_values cost_sample = Inr cost_sample_imputed"
    by (simp add: returns_new_def cost_sample_handled)
  with p cost_sample_handled cost_sample_pipeline show ?thesis
    by simp
qed

end
